theory Spec2Isabelle
  imports Complex_Main
begin

section \<open>Numbers and indexing as Python and numpy have them\<close>

text \<open>
  The notebooks compute with float64 arrays. Finite floats are idealised as reals (no
  rounding, no overflow, zero is unsigned); the three values a float operation can
  produce beyond the reals are kept, because numpy does not raise on them: it returns
  \<open>nan\<close>, \<open>inf\<close> or \<open>-inf\<close> and goes on. Rounding is defined further down
  (\<open>float64\<close>); the functions whose name ends in 64 compute with it, for the
  property that rounding decides.
\<close>

datatype npfloat = NaN | PInf | NInf | Fin real

datatype error = IndexError | KeyError | ValueError

fun np_neg :: "npfloat \<Rightarrow> npfloat" where
  "np_neg NaN = NaN"
| "np_neg PInf = NInf"
| "np_neg NInf = PInf"
| "np_neg (Fin a) = Fin (- a)"

fun np_add :: "npfloat \<Rightarrow> npfloat \<Rightarrow> npfloat" where
  "np_add (Fin a) (Fin b) = Fin (a + b)"
| "np_add NaN _ = NaN"
| "np_add _ NaN = NaN"
| "np_add PInf NInf = NaN"
| "np_add NInf PInf = NaN"
| "np_add PInf _ = PInf"
| "np_add _ PInf = PInf"
| "np_add NInf _ = NInf"
| "np_add _ NInf = NInf"

definition inf_times :: "npfloat \<Rightarrow> real \<Rightarrow> npfloat" where
  "inf_times i s = (if s = 0 then NaN else if 0 < s then i else np_neg i)"

fun np_mul :: "npfloat \<Rightarrow> npfloat \<Rightarrow> npfloat" where
  "np_mul (Fin a) (Fin b) = Fin (a * b)"
| "np_mul NaN _ = NaN"
| "np_mul _ NaN = NaN"
| "np_mul (Fin a) i = inf_times i a"
| "np_mul i (Fin b) = inf_times i b"
| "np_mul PInf i = i"
| "np_mul NInf i = np_neg i"

fun np_div :: "npfloat \<Rightarrow> npfloat \<Rightarrow> npfloat" where
  "np_div (Fin a) (Fin b) =
     (if b = 0 then (if a = 0 then NaN else if 0 < a then PInf else NInf)
      else Fin (a / b))"
| "np_div NaN _ = NaN"
| "np_div _ NaN = NaN"
| "np_div (Fin a) _ = Fin 0"
| "np_div i (Fin b) = (if 0 \<le> b then i else np_neg i)"
| "np_div _ _ = NaN"

fun np_log :: "npfloat \<Rightarrow> npfloat" where
  "np_log (Fin x) = (if x < 0 then NaN else if x = 0 then NInf else Fin (ln x))"
| "np_log PInf = PInf"
| "np_log _ = NaN"

fun np_exp :: "npfloat \<Rightarrow> npfloat" where
  "np_exp (Fin x) = Fin (exp x)"
| "np_exp NInf = Fin 0"
| "np_exp i = i"

text \<open>The comparison \<open>a > b\<close> of two floats: false as soon as one of them is \<open>nan\<close>.\<close>

fun np_gt :: "npfloat \<Rightarrow> npfloat \<Rightarrow> bool" where
  "np_gt (Fin a) (Fin b) = (b < a)"
| "np_gt NaN _ = False"
| "np_gt _ NaN = False"
| "np_gt _ PInf = False"
| "np_gt PInf _ = True"
| "np_gt NInf _ = False"
| "np_gt _ NInf = True"

text \<open>
  Python's \<open>max\<close> keeps its first argument unless a later one compares greater;
  \<open>np.argmax\<close> returns the first index of the maximum and treats \<open>nan\<close> as the
  maximum. Both are only ever applied to two values here.
\<close>

definition py_max2 :: "npfloat \<Rightarrow> npfloat \<Rightarrow> npfloat" where
  "py_max2 a b = (if np_gt b a then b else a)"

definition np_argmax :: "npfloat \<times> npfloat \<Rightarrow> nat" where
  "np_argmax v = (if fst v = NaN then 0
                  else if snd v = NaN \<or> np_gt (snd v) (fst v) then 1 else 0)"

text \<open>
  Rounding to float64, the binary64 format of IEEE 754, to the nearest float and to the
  even one of two equally near. A magnitude \<open>a > 0\<close> lies between \<open>2 ^ e\<close> and
  \<open>2 ^ (e + 1)\<close> for \<open>e = expo a\<close>, which is never taken below -1022 (smaller
  magnitudes are subnormal); the floats there are the integer multiples of
  \<open>quantum a\<close>, 52 binary digits further down. \<open>float64 x\<close> is the multiple nearest
  to \<open>x\<close>: a magnitude that rounds to \<open>2 ^ 1024\<close> overflows to an infinity, and one
  of at most \<open>2 ^ -1075\<close> underflows to zero.
\<close>

definition round_even :: "real \<Rightarrow> int" where
  "round_even x =
     (if x - of_int \<lfloor>x\<rfloor> < 1 / 2 then \<lfloor>x\<rfloor>
      else if 1 / 2 < x - of_int \<lfloor>x\<rfloor> then \<lfloor>x\<rfloor> + 1
      else if even \<lfloor>x\<rfloor> then \<lfloor>x\<rfloor> else \<lfloor>x\<rfloor> + 1)"

definition expo :: "real \<Rightarrow> int" where
  "expo a = max \<lfloor>log 2 a\<rfloor> (- 1022)"

definition quantum :: "real \<Rightarrow> real" where
  "quantum a = 2 powr (of_int (expo a) - 52)"

definition float64 :: "real \<Rightarrow> npfloat" where
  "float64 x =
     (if x = 0 then Fin 0
      else if 2 ^ 1024 \<le> of_int (round_even (\<bar>x\<bar> / quantum \<bar>x\<bar>)) * quantum \<bar>x\<bar>
           then (if 0 < x then PInf else NInf)
      else if 0 < x then Fin (of_int (round_even (x / quantum x)) * quantum x)
      else Fin (- (of_int (round_even (\<bar>x\<bar> / quantum \<bar>x\<bar>)) * quantum \<bar>x\<bar>)))"

text \<open>
  A float operation returns the exact result rounded; \<open>nan\<close> and the infinities pass
  through. \<open>np_eq\<close> is the comparison \<open>==\<close> of two floats, false as soon as one of
  them is \<open>nan\<close>.
\<close>

definition rounded :: "npfloat \<Rightarrow> npfloat" where
  "rounded v = (case v of Fin x \<Rightarrow> float64 x | NaN \<Rightarrow> NaN | PInf \<Rightarrow> PInf | NInf \<Rightarrow> NInf)"

definition fl_add :: "npfloat \<Rightarrow> npfloat \<Rightarrow> npfloat" where
  "fl_add a b = rounded (np_add a b)"

definition fl_mul :: "npfloat \<Rightarrow> npfloat \<Rightarrow> npfloat" where
  "fl_mul a b = rounded (np_mul a b)"

definition fl_div :: "npfloat \<Rightarrow> npfloat \<Rightarrow> npfloat" where
  "fl_div a b = rounded (np_div a b)"

fun np_eq :: "npfloat \<Rightarrow> npfloat \<Rightarrow> bool" where
  "np_eq (Fin a) (Fin b) = (a = b)"
| "np_eq PInf PInf = True"
| "np_eq NInf NInf = True"
| "np_eq _ _ = False"

text \<open>Reading \<open>xs[i]\<close> for an integer \<open>i\<close>: positions \<open>0 .. len - 1\<close> are read
  directly, positions \<open>-len .. -1\<close> wrap around once, every other position raises.\<close>

definition getitem :: "'a list \<Rightarrow> int \<Rightarrow> error + 'a" where
  "getitem xs i =
     (if 0 \<le> i \<and> i < int (length xs) then Inr (xs ! nat i)
      else if - int (length xs) \<le> i \<and> i < 0 then Inr (xs ! nat (i + int (length xs)))
      else Inl IndexError)"

text \<open>A row of the two hidden states (0 is the bear market, 1 the bull market).\<close>

definition states :: "nat list" where
  "states = [0, 1]"

definition sel2 :: "'a \<times> 'a \<Rightarrow> nat \<Rightarrow> 'a" where
  "sel2 r i = (if i = 0 then fst r else snd r)"

section \<open>The hidden Markov model class HMMBB\<close>

text \<open>
  \<open>P\<close> is the 2 x 2 transition matrix (a pair of rows), \<open>emp\<close> the 2 x k matrix of
  emission probabilities (the row of the bear state, the row of the bull state).
\<close>

record HMMBB =
  P :: "(real \<times> real) \<times> (real \<times> real)"
  emp :: "real list \<times> real list"

definition P_at :: "HMMBB \<Rightarrow> nat \<Rightarrow> nat \<Rightarrow> real" where
  "P_at h j i = sel2 (sel2 (P h) j) i"

text \<open>
  The constructor. The check that \<open>qe.MarkovChain\<close> runs on \<open>P\<close> belongs to the
  quantecon library and is a parameter here; \<open>np.row_stack\<close> refuses rows of
  different lengths. Nothing looks at the values of the emission rows.
\<close>

definition HMMBB_init ::
  "((real \<times> real) \<times> (real \<times> real) \<Rightarrow> bool) \<Rightarrow> real \<Rightarrow> real \<Rightarrow> real list \<Rightarrow> real list
     \<Rightarrow> error + HMMBB" where
  "HMMBB_init MarkovChain_ok p_bear p_bull r_bear_probs r_bull_probs =
     (let Pm = ((p_bear, 1 - p_bear), (1 - p_bull, p_bull))
      in if \<not> MarkovChain_ok Pm then Inl ValueError
         else if length r_bear_probs \<noteq> length r_bull_probs then Inl ValueError
         else Inr \<lparr>P = Pm, emp = (r_bear_probs, r_bull_probs)\<rparr>)"

text \<open>What quantecon documents for \<open>MarkovChain\<close>: the matrix is nonnegative and every
  row sums to one.\<close>

definition MarkovChain_check :: "(real \<times> real) \<times> (real \<times> real) \<Rightarrow> bool" where
  "MarkovChain_check Pm =
     (0 \<le> fst (fst Pm) \<and> 0 \<le> snd (fst Pm) \<and> 0 \<le> fst (snd Pm) \<and> 0 \<le> snd (snd Pm)
      \<and> fst (fst Pm) + snd (fst Pm) = 1 \<and> fst (snd Pm) + snd (snd Pm) = 1)"

text \<open>The column \<open>emp[:, y]\<close>: the code reads \<open>emp[0, :][y]\<close> and \<open>emp[1, :][y]\<close>.\<close>

definition emp_col :: "HMMBB \<Rightarrow> int \<Rightarrow> error + (real \<times> real)" where
  "emp_col h y =
     (case getitem (fst (emp h)) y of
        Inl e \<Rightarrow> Inl e
      | Inr e0 \<Rightarrow> (case getitem (snd (emp h)) y of
                    Inl e \<Rightarrow> Inl e
                  | Inr e1 \<Rightarrow> Inr (e0, e1)))"

subsection \<open>forward\<close>

text \<open>
  One pass of the loop body of \<open>forward\<close> for period \<open>t\<close>, from the row of period
  \<open>t - 1\<close>: the predictors are accumulated over \<open>j\<close> in \<open>range(2)\<close> starting from 0.0.
\<close>

definition forward_row :: "HMMBB \<Rightarrow> real \<times> real \<Rightarrow> real \<times> real \<Rightarrow> real \<times> real" where
  "forward_row h prev e =
     (let predictor_bear = foldl (\<lambda>s j. s + sel2 prev j * P_at h j 0) 0 states;
          predictor_bull = foldl (\<lambda>s j. s + sel2 prev j * P_at h j 1) 0 states
      in (fst e * predictor_bear, snd e * predictor_bull))"

fun forward_rows :: "HMMBB \<Rightarrow> real \<times> real \<Rightarrow> int list \<Rightarrow> error + (real \<times> real) list" where
  "forward_rows h prev [] = Inr []"
| "forward_rows h prev (y # ys) =
     (case emp_col h y of
        Inl e \<Rightarrow> Inl e
      | Inr e \<Rightarrow> (case forward_rows h (forward_row h prev e) ys of
                   Inl er \<Rightarrow> Inl er
                 | Inr rows \<Rightarrow> Inr (forward_row h prev e # rows)))"

text \<open>\<open>forward\<close>: period 0 reads \<open>realized_returns[0]\<close>, which raises on an empty
  array.\<close>

definition forward :: "HMMBB \<Rightarrow> int list \<Rightarrow> error + (real \<times> real) list" where
  "forward h realized_returns =
     (case realized_returns of
        [] \<Rightarrow> Inl IndexError
      | y0 # ys \<Rightarrow>
          (case emp_col h y0 of
             Inl e \<Rightarrow> Inl e
           | Inr e \<Rightarrow> (case forward_rows h (fst e * 0.5, snd e * 0.5) ys of
                        Inl er \<Rightarrow> Inl er
                      | Inr rows \<Rightarrow> Inr ((fst e * 0.5, snd e * 0.5) # rows))))"

subsection \<open>filter_probabilities, backward, smooth_probabilities\<close>

text \<open>A row divided by its sum, as \<open>a / np.sum(a, axis=1)[:, None]\<close> does row by row.\<close>

definition normalize_row :: "npfloat \<times> npfloat \<Rightarrow> npfloat \<times> npfloat" where
  "normalize_row r = (let s = np_add (fst r) (snd r) in (np_div (fst r) s, np_div (snd r) s))"

definition filter_probabilities :: "(real \<times> real) list \<Rightarrow> (npfloat \<times> npfloat) list" where
  "filter_probabilities alphas = map (\<lambda>a. normalize_row (Fin (fst a), Fin (snd a))) alphas"

text \<open>
  The body of the loop of \<open>backward\<close> for \<open>tp1\<close>: \<open>e\<close> is \<open>emp[:, realized_returns[tp1]]\<close>
  and \<open>b\<close> is \<open>betas[tp1, :]\<close>; the sum over \<open>j\<close> starts from 0.0.
\<close>

definition backward_val :: "HMMBB \<Rightarrow> real \<times> real \<Rightarrow> npfloat \<times> npfloat \<Rightarrow> nat \<Rightarrow> npfloat" where
  "backward_val h e b j = np_add (np_log (Fin (sel2 e j))) (np_log (sel2 b j))"

definition backward_row :: "HMMBB \<Rightarrow> real \<times> real \<Rightarrow> npfloat \<times> npfloat \<Rightarrow> npfloat \<times> npfloat" where
  "backward_row h e b =
     (let value_bear = foldl (\<lambda>s j. np_add s
            (np_exp (np_add (backward_val h e b j) (np_log (Fin (P_at h 0 j)))))) (Fin 0) states;
          value_bull = foldl (\<lambda>s j. np_add s
            (np_exp (np_add (backward_val h e b j) (np_log (Fin (P_at h 1 j)))))) (Fin 0) states
      in (value_bear, value_bull))"

text \<open>The loop runs \<open>tp1\<close> from \<open>T - 1\<close> down to 1; \<open>rows\<close> are the rows
  \<open>betas[tp1:, :]\<close> already final (never empty: the row \<open>T - 1\<close> is set before the
  loop), the first list the observations still to visit.\<close>

fun backward_loop ::
  "HMMBB \<Rightarrow> int list \<Rightarrow> (npfloat \<times> npfloat) list \<Rightarrow> error + (npfloat \<times> npfloat) list" where
  "backward_loop h [] rows = Inr rows"
| "backward_loop h (y # todo) [] = Inr []"
| "backward_loop h (y # todo) (b # rows) =
     (case emp_col h y of
        Inl e \<Rightarrow> Inl e
      | Inr e \<Rightarrow> backward_loop h todo (backward_row h e b # b # rows))"

definition backward :: "HMMBB \<Rightarrow> int list \<Rightarrow> error + (npfloat \<times> npfloat) list" where
  "backward h realized_returns =
     (case realized_returns of
        [] \<Rightarrow> Inl IndexError
      | y0 # ys \<Rightarrow> backward_loop h (rev ys) [(Fin 1, Fin 1)])"

text \<open>Elementwise product of two tables of two columns; numpy stretches a table of
  one row to the length of the other and refuses any other mismatch.\<close>

definition broadcast_rows :: "'a list \<Rightarrow> 'b list \<Rightarrow> error + ('a \<times> 'b) list" where
  "broadcast_rows xs ys =
     (if length xs = length ys then Inr (zip xs ys)
      else if length xs = 1 then Inr (map (\<lambda>y. (hd xs, y)) ys)
      else if length ys = 1 then Inr (map (\<lambda>x. (x, hd ys)) xs)
      else Inl ValueError)"

definition smooth_probabilities ::
  "(real \<times> real) list \<Rightarrow> (npfloat \<times> npfloat) list \<Rightarrow> error + (npfloat \<times> npfloat) list" where
  "smooth_probabilities alphas betas =
     (case broadcast_rows alphas betas of
        Inl e \<Rightarrow> Inl e
      | Inr ab \<Rightarrow> Inr (map (\<lambda>(a, b). normalize_row
                          (np_mul (Fin (fst a)) (fst b), np_mul (Fin (snd a)) (snd b))) ab))"

subsection \<open>ffbs\<close>

text \<open>
  \<open>qe.DiscreteRV(sample_probs).draw()\<close> is a call into quantecon that reads and
  advances numpy's process-wide random generator. The sampler is a parameter \<open>draw\<close>: it
  takes the probabilities and the state of the generator and returns the index drawn and
  the new state of the generator. \<open>ffbs\<close> has no argument for a generator: the state
  \<open>g\<close> below is the global one at the time of the call, and the state returned is the
  one the call leaves behind.
\<close>

definition P_col :: "HMMBB \<Rightarrow> nat \<Rightarrow> error + (real \<times> real)" where
  "P_col h x = (if x < 2 then Inr (P_at h 0 x, P_at h 1 x) else Inl IndexError)"

text \<open>The block "update sampling probabilities" at the end of iteration \<open>t\<close>, after
  \<open>x_sample[t] = x\<close>: it is guarded by \<open>t - 1 > 0\<close>.\<close>

definition update_probs ::
  "HMMBB \<Rightarrow> (npfloat \<times> npfloat) list \<Rightarrow> nat \<Rightarrow> npfloat \<times> npfloat \<Rightarrow> nat
     \<Rightarrow> error + (npfloat \<times> npfloat)" where
  "update_probs h betas t sample_probs x =
     (if int t - 1 > 0 then
        (case P_col h x of
           Inl e \<Rightarrow> Inl e
         | Inr c \<Rightarrow>
             (case getitem betas (int t - 1) of
                Inl e \<Rightarrow> Inl e
              | Inr b \<Rightarrow> Inr (normalize_row (np_mul (Fin (fst c)) (fst b),
                                              np_mul (Fin (snd c)) (snd b)))))
      else Inr sample_probs)"

text \<open>\<open>ffbs_loop draw h betas n sample_probs g\<close> runs the iterations \<open>t = n - 1, ..., 0\<close>
  and returns \<open>x_sample[0:n]\<close>.\<close>

fun ffbs_loop ::
  "(npfloat \<times> npfloat \<Rightarrow> 'g \<Rightarrow> nat \<times> 'g) \<Rightarrow> HMMBB \<Rightarrow> (npfloat \<times> npfloat) list \<Rightarrow> nat
     \<Rightarrow> npfloat \<times> npfloat \<Rightarrow> 'g \<Rightarrow> error + (nat list \<times> 'g)" where
  "ffbs_loop draw h betas 0 sample_probs g = Inr ([], g)"
| "ffbs_loop draw h betas (Suc t) sample_probs g =
     (case draw sample_probs g of (x, g') \<Rightarrow>
        (case update_probs h betas t sample_probs x of
           Inl e \<Rightarrow> Inl e
         | Inr sample_probs' \<Rightarrow>
             (case ffbs_loop draw h betas t sample_probs' g' of
                Inl e \<Rightarrow> Inl e
              | Inr (xs, g'') \<Rightarrow> Inr (xs @ [x], g''))))"

definition ffbs ::
  "(npfloat \<times> npfloat \<Rightarrow> 'g \<Rightarrow> nat \<times> 'g) \<Rightarrow> HMMBB \<Rightarrow> int list \<Rightarrow> 'g
     \<Rightarrow> error + (nat list \<times> 'g)" where
  "ffbs draw h realized_returns g =
     (case forward h realized_returns of
        Inl e \<Rightarrow> Inl e
      | Inr alphas \<Rightarrow>
          (case backward h realized_returns of
             Inl e \<Rightarrow> Inl e
           | Inr betas \<Rightarrow>
               ffbs_loop draw h betas (length realized_returns)
                 (last (filter_probabilities alphas)) g))"

text \<open>The line \<open>sample_paths = [self.ffbs(realized_returns) for i in range(n)]\<close> of
  \<open>killer_graph_2\<close>: \<open>n\<close> calls one after the other, each starting from the
  generator as the previous call left it.\<close>

fun sample_paths ::
  "(npfloat \<times> npfloat \<Rightarrow> 'g \<Rightarrow> nat \<times> 'g) \<Rightarrow> HMMBB \<Rightarrow> int list \<Rightarrow> nat \<Rightarrow> 'g
     \<Rightarrow> error + (nat list list \<times> 'g)" where
  "sample_paths draw h realized_returns 0 g = Inr ([], g)"
| "sample_paths draw h realized_returns (Suc n) g =
     (case ffbs draw h realized_returns g of
        Inl e \<Rightarrow> Inl e
      | Inr (xs, g') \<Rightarrow>
          (case sample_paths draw h realized_returns n g' of
             Inl e \<Rightarrow> Inl e
           | Inr (paths, g'') \<Rightarrow> Inr (xs # paths, g'')))"

text \<open>What the caller of \<open>ffbs\<close> sees: the path, or the exception.\<close>

definition returned :: "error + ('a \<times> 'g) \<Rightarrow> error + 'a" where
  "returned r = (case r of Inl e \<Rightarrow> Inl e | Inr (xs, g) \<Rightarrow> Inr xs)"

text \<open>
  Two samplers. The first is quantecon's: the generator is the stream of the uniform
  variates it will produce, one is consumed per draw, and the index is found by binary
  search of the variate in the cumulative sums (\<open>searchsorted\<close> with \<open>side='right'\<close>,
  where \<open>nan\<close> sorts last). The second records the probabilities it is asked to sample
  from and always answers 0.
\<close>

fun sorts_before :: "real \<Rightarrow> npfloat \<Rightarrow> bool" where
  "sorts_before u (Fin q) = (u < q)"
| "sorts_before u NInf = False"
| "sorts_before u _ = True"

definition DiscreteRV_draw :: "npfloat \<times> npfloat \<Rightarrow> (nat \<Rightarrow> real) \<Rightarrow> nat \<times> (nat \<Rightarrow> real)" where
  "DiscreteRV_draw q g =
     (let Q0 = fst q; Q1 = np_add (fst q) (snd q); u = g 0
      in ((if sorts_before u Q1 then (if sorts_before u Q0 then 0 else 1) else 2),
          (\<lambda>n. g (Suc n))))"

definition recording_draw ::
  "npfloat \<times> npfloat \<Rightarrow> (npfloat \<times> npfloat) list \<Rightarrow> nat \<times> (npfloat \<times> npfloat) list" where
  "recording_draw q seen = (0, seen @ [q])"

definition low_high :: "nat \<Rightarrow> real" where
  "low_high n = (if even n then 1 / 10 else 9 / 10)"

subsection \<open>viterbi\<close>

definition log_row :: "real \<times> real \<Rightarrow> npfloat \<times> npfloat" where
  "log_row r = (np_log (Fin (fst r)), np_log (Fin (snd r)))"

definition add_row :: "npfloat \<times> npfloat \<Rightarrow> npfloat \<times> npfloat \<Rightarrow> npfloat \<times> npfloat" where
  "add_row a b = (np_add (fst a) (fst b), np_add (snd a) (snd b))"

text \<open>The entry \<open>log_mus[t - 1, xtm1]\<close>: the maximum of the two \<open>possible_values\<close>, with
  \<open>e = emp[:, realized_returns[t]]\<close> and \<open>m = log_mus[t, :]\<close>.\<close>

definition possible_value :: "HMMBB \<Rightarrow> real \<times> real \<Rightarrow> npfloat \<times> npfloat \<Rightarrow> nat \<Rightarrow> nat \<Rightarrow> npfloat" where
  "possible_value h e m xtm1 xt =
     np_add (np_add (np_log (Fin (sel2 e xt))) (np_log (Fin (P_at h xtm1 xt)))) (sel2 m xt)"

definition log_mu_row :: "HMMBB \<Rightarrow> real \<times> real \<Rightarrow> npfloat \<times> npfloat \<Rightarrow> npfloat \<times> npfloat" where
  "log_mu_row h e m =
     (py_max2 (possible_value h e m 0 0) (possible_value h e m 0 1),
      py_max2 (possible_value h e m 1 0) (possible_value h e m 1 1))"

fun log_mus_loop ::
  "HMMBB \<Rightarrow> int list \<Rightarrow> (npfloat \<times> npfloat) list \<Rightarrow> error + (npfloat \<times> npfloat) list" where
  "log_mus_loop h [] rows = Inr rows"
| "log_mus_loop h (y # todo) [] = Inr []"
| "log_mus_loop h (y # todo) (m # rows) =
     (case emp_col h y of
        Inl e \<Rightarrow> Inl e
      | Inr e \<Rightarrow> log_mus_loop h todo (log_mu_row h e m # m # rows))"

text \<open>The table \<open>log_mus\<close> when the first loop of \<open>viterbi\<close> is over: it is allocated
  with \<open>np.ones((T, 2))\<close> and filled from row \<open>T - 2\<close> down to row 0.\<close>

definition viterbi_log_mus :: "HMMBB \<Rightarrow> int list \<Rightarrow> error + (npfloat \<times> npfloat) list" where
  "viterbi_log_mus h realized_returns =
     (case realized_returns of
        [] \<Rightarrow> Inr []
      | y0 # ys \<Rightarrow> log_mus_loop h (rev ys) [(Fin 1, Fin 1)])"

text \<open>The second loop, \<open>for t in range(T)\<close>: it starts at \<open>t = 0\<close>, where
  \<open>xt_star[t - 1]\<close> is the last entry of \<open>xt_star\<close>.\<close>

fun decode_loop ::
  "HMMBB \<Rightarrow> nat \<Rightarrow> (int \<times> (npfloat \<times> npfloat)) list \<Rightarrow> nat list \<Rightarrow> error + nat list" where
  "decode_loop h t [] xt_star = Inr xt_star"
| "decode_loop h t ((y, m) # rest) xt_star =
     (case emp_col h y of
        Inl e \<Rightarrow> Inl e
      | Inr e \<Rightarrow>
          (case getitem xt_star (int t - 1) of
             Inl er \<Rightarrow> Inl er
           | Inr prev \<Rightarrow>
               decode_loop h (Suc t) rest
                 (xt_star[t := np_argmax
                    (add_row (add_row (log_row e) (log_row (sel2 (P h) prev))) m)])))"

definition viterbi :: "HMMBB \<Rightarrow> int list \<Rightarrow> error + nat list" where
  "viterbi h realized_returns =
     (case viterbi_log_mus h realized_returns of
        Inl e \<Rightarrow> Inl e
      | Inr log_mus \<Rightarrow>
          (case realized_returns of
             [] \<Rightarrow> Inl IndexError
           | y0 # ys \<Rightarrow>
               (case emp_col h y0 of
                  Inl e \<Rightarrow> Inl e
                | Inr e \<Rightarrow>
                    (case log_mus of
                       [] \<Rightarrow> Inl IndexError
                     | m0 # ms \<Rightarrow>
                         decode_loop h 0 (zip realized_returns log_mus)
                           ((replicate (length realized_returns) 0)
                              [0 := np_argmax (add_row (add_row (log_row e)
                                      (np_log (Fin 0.5), np_log (Fin 0.5))) m0)])))))"

subsection \<open>forward, filter_probabilities, backward and smooth_probabilities with rounding\<close>

text \<open>
  The four functions once more, with every product, sum and quotient rounded to
  float64 and the tables holding floats. The stored probabilities are the floats the
  constructor was given. \<open>np.log\<close> and \<open>np.exp\<close> are library functions whose last
  digit numpy does not fix: they are the parameters \<open>lg\<close> and \<open>ex\<close>.
\<close>

text \<open>The loop body of \<open>forward\<close>, the whole of \<open>forward\<close>, and the row of period 0
  (\<open>emp[i, :][realized_returns[0]] * 0.5\<close>).\<close>

definition forward_row64 :: "HMMBB \<Rightarrow> npfloat \<times> npfloat \<Rightarrow> real \<times> real \<Rightarrow> npfloat \<times> npfloat" where
  "forward_row64 h prev e =
     (let predictor_bear = foldl (\<lambda>s j. fl_add s (fl_mul (sel2 prev j) (Fin (P_at h j 0)))) (Fin 0) states;
          predictor_bull = foldl (\<lambda>s j. fl_add s (fl_mul (sel2 prev j) (Fin (P_at h j 1)))) (Fin 0) states
      in (fl_mul (Fin (fst e)) predictor_bear, fl_mul (Fin (snd e)) predictor_bull))"

fun forward_rows64 ::
  "HMMBB \<Rightarrow> npfloat \<times> npfloat \<Rightarrow> int list \<Rightarrow> error + (npfloat \<times> npfloat) list" where
  "forward_rows64 h prev [] = Inr []"
| "forward_rows64 h prev (y # ys) =
     (case emp_col h y of
        Inl e \<Rightarrow> Inl e
      | Inr e \<Rightarrow> (case forward_rows64 h (forward_row64 h prev e) ys of
                   Inl er \<Rightarrow> Inl er
                 | Inr rows \<Rightarrow> Inr (forward_row64 h prev e # rows)))"

definition first_row64 :: "real \<times> real \<Rightarrow> npfloat \<times> npfloat" where
  "first_row64 e = (fl_mul (Fin (fst e)) (Fin 0.5), fl_mul (Fin (snd e)) (Fin 0.5))"

definition forward64 :: "HMMBB \<Rightarrow> int list \<Rightarrow> error + (npfloat \<times> npfloat) list" where
  "forward64 h realized_returns =
     (case realized_returns of
        [] \<Rightarrow> Inl IndexError
      | y0 # ys \<Rightarrow>
          (case emp_col h y0 of
             Inl e \<Rightarrow> Inl e
           | Inr e \<Rightarrow> (case forward_rows64 h (first_row64 e) ys of
                        Inl er \<Rightarrow> Inl er
                      | Inr rows \<Rightarrow> Inr (first_row64 e # rows))))"

text \<open>\<open>filter_probabilities\<close>, \<open>backward\<close> and \<open>smooth_probabilities\<close>.\<close>

definition normalize_row64 :: "npfloat \<times> npfloat \<Rightarrow> npfloat \<times> npfloat" where
  "normalize_row64 r = (let s = fl_add (fst r) (snd r) in (fl_div (fst r) s, fl_div (snd r) s))"

definition filter_probabilities64 :: "(npfloat \<times> npfloat) list \<Rightarrow> (npfloat \<times> npfloat) list" where
  "filter_probabilities64 alphas = map normalize_row64 alphas"

definition backward_row64 ::
  "(npfloat \<Rightarrow> npfloat) \<Rightarrow> (npfloat \<Rightarrow> npfloat) \<Rightarrow> HMMBB \<Rightarrow> real \<times> real \<Rightarrow> npfloat \<times> npfloat
     \<Rightarrow> npfloat \<times> npfloat" where
  "backward_row64 lg ex h e b =
     (let value_bear = foldl (\<lambda>s j. fl_add s
            (ex (fl_add (fl_add (lg (Fin (sel2 e j))) (lg (sel2 b j))) (lg (Fin (P_at h 0 j))))))
            (Fin 0) states;
          value_bull = foldl (\<lambda>s j. fl_add s
            (ex (fl_add (fl_add (lg (Fin (sel2 e j))) (lg (sel2 b j))) (lg (Fin (P_at h 1 j))))))
            (Fin 0) states
      in (value_bear, value_bull))"

fun backward_loop64 ::
  "(npfloat \<Rightarrow> npfloat) \<Rightarrow> (npfloat \<Rightarrow> npfloat) \<Rightarrow> HMMBB \<Rightarrow> int list \<Rightarrow> (npfloat \<times> npfloat) list
     \<Rightarrow> error + (npfloat \<times> npfloat) list" where
  "backward_loop64 lg ex h [] rows = Inr rows"
| "backward_loop64 lg ex h (y # todo) [] = Inr []"
| "backward_loop64 lg ex h (y # todo) (b # rows) =
     (case emp_col h y of
        Inl e \<Rightarrow> Inl e
      | Inr e \<Rightarrow> backward_loop64 lg ex h todo (backward_row64 lg ex h e b # b # rows))"

definition backward64 ::
  "(npfloat \<Rightarrow> npfloat) \<Rightarrow> (npfloat \<Rightarrow> npfloat) \<Rightarrow> HMMBB \<Rightarrow> int list
     \<Rightarrow> error + (npfloat \<times> npfloat) list" where
  "backward64 lg ex h realized_returns =
     (case realized_returns of
        [] \<Rightarrow> Inl IndexError
      | y0 # ys \<Rightarrow> backward_loop64 lg ex h (rev ys) [(Fin 1, Fin 1)])"

definition smooth_probabilities64 ::
  "(npfloat \<times> npfloat) list \<Rightarrow> (npfloat \<times> npfloat) list \<Rightarrow> error + (npfloat \<times> npfloat) list" where
  "smooth_probabilities64 alphas betas =
     (case broadcast_rows alphas betas of
        Inl e \<Rightarrow> Inl e
      | Inr ab \<Rightarrow> Inr (map (\<lambda>(a, b). normalize_row64 (fl_mul (fst a) (fst b), fl_mul (snd a) (snd b))) ab))"

section \<open>The shortest path solvers\<close>

text \<open>
  A graph is the dictionary of the notebook: every node is a key, its value the
  dictionary of the edges that leave it with their costs. Dictionaries keep the order in
  which their keys were inserted, and both solvers depend on that order, so a dictionary
  is an association list (with distinct keys, as a Python dictionary has). Both classes
  store the same three fields.
\<close>

record shortest_path =
  dag :: "(string \<times> (string \<times> real) list) list"
  vertex :: string
  terminal :: string

definition dict_get :: "('k \<times> 'v) list \<Rightarrow> 'k \<Rightarrow> error + 'v" where
  "dict_get d k = (case map_of d k of None \<Rightarrow> Inl KeyError | Some v \<Rightarrow> Inr v)"

fun dict_set :: "('k \<times> 'v) list \<Rightarrow> 'k \<Rightarrow> 'v \<Rightarrow> ('k \<times> 'v) list" where
  "dict_set [] k v = [(k, v)]"
| "dict_set ((k', v') # d) k v =
     (if k' = k then (k, v) # d else (k', v') # dict_set d k v)"

text \<open>A list comprehension whose body may raise.\<close>

fun collect :: "('a \<Rightarrow> error + 'b) \<Rightarrow> 'a list \<Rightarrow> error + 'b list" where
  "collect f [] = Inr []"
| "collect f (x # xs) =
     (case f x of
        Inl e \<Rightarrow> Inl e
      | Inr y \<Rightarrow> (case collect f xs of Inl e \<Rightarrow> Inl e | Inr ys \<Rightarrow> Inr (y # ys)))"

text \<open>\<open>min\<close> and \<open>max\<close> of a list of numbers that is not empty.\<close>

definition py_min :: "real list \<Rightarrow> real" where
  "py_min xs = foldl min (hd xs) (tl xs)"

definition py_max :: "real list \<Rightarrow> real" where
  "py_max xs = foldl max (hd xs) (tl xs)"

definition is_at_end :: "shortest_path \<Rightarrow> string \<Rightarrow> bool" where
  "is_at_end sp v = (v = terminal sp)"

definition available_actions :: "shortest_path \<Rightarrow> string \<Rightarrow> error + string list" where
  "available_actions sp v =
     (if is_at_end sp v then Inr []
      else (case dict_get (dag sp) v of Inl e \<Rightarrow> Inl e | Inr es \<Rightarrow> Inr (map fst es)))"

definition edge_cost :: "shortest_path \<Rightarrow> string \<Rightarrow> string \<Rightarrow> error + real" where
  "edge_cost sp v w =
     (case dict_get (dag sp) v of Inl e \<Rightarrow> Inl e | Inr es \<Rightarrow> dict_get es w)"

fun path_costs :: "shortest_path \<Rightarrow> string list \<Rightarrow> error + real list" where
  "path_costs sp (v # w # rest) =
     (case edge_cost sp v w of
        Inl e \<Rightarrow> Inl e
      | Inr c \<Rightarrow> (case path_costs sp (w # rest) of Inl e \<Rightarrow> Inl e | Inr cs \<Rightarrow> Inr (c # cs)))"
| "path_costs sp _ = Inr []"

definition evaluate_path :: "shortest_path \<Rightarrow> string list \<Rightarrow> error + real" where
  "evaluate_path sp cpath =
     (case path_costs sp cpath of Inl e \<Rightarrow> Inl e | Inr cs \<Rightarrow> Inr (sum_list cs))"

subsection \<open>DynamicProgrammingShortestPath\<close>

definition compare_J ::
  "shortest_path \<Rightarrow> (string \<times> real) list \<Rightarrow> (string \<times> real) list \<Rightarrow> error + real" where
  "compare_J sp Jn Jnp1 =
     (case collect (\<lambda>k. case dict_get Jn k of
                           Inl e \<Rightarrow> Inl e
                         | Inr a \<Rightarrow> (case dict_get Jnp1 k of
                                      Inl e \<Rightarrow> Inl e
                                    | Inr b \<Rightarrow> Inr \<bar>a - b\<bar>)) (map fst (dag sp)) of
        Inl e \<Rightarrow> Inl e
      | Inr ds \<Rightarrow> if ds = [] then Inl ValueError else Inr (py_max ds))"

definition eval_action ::
  "shortest_path \<Rightarrow> string \<Rightarrow> string \<Rightarrow> (string \<times> real) list \<Rightarrow> error + real" where
  "eval_action sp v w J =
     (case edge_cost sp v w of
        Inl e \<Rightarrow> Inl e
      | Inr c \<Rightarrow> (case dict_get J w of Inl e \<Rightarrow> Inl e | Inr j \<Rightarrow> Inr (c + j)))"

definition bellman_equation ::
  "shortest_path \<Rightarrow> string \<Rightarrow> (string \<times> real) list \<Rightarrow> error + real" where
  "bellman_equation sp v J =
     (if v = terminal sp then Inr 0
      else (case available_actions sp v of
              Inl e \<Rightarrow> Inl e
            | Inr actions \<Rightarrow>
                (case collect (\<lambda>w. eval_action sp v w J) actions of
                   Inl e \<Rightarrow> Inl e
                 | Inr J_np1 \<Rightarrow> if J_np1 = [] then Inl ValueError else Inr (py_min J_np1))))"

text \<open>One pass of \<open>for node in nodes: J_np1[node] = bellman_equation(node, J_n)\<close>.\<close>

definition bellman_sweep ::
  "shortest_path \<Rightarrow> (string \<times> real) list \<Rightarrow> error + (string \<times> real) list" where
  "bellman_sweep sp J_n =
     collect (\<lambda>node. case bellman_equation sp node J_n of
                        Inl e \<Rightarrow> Inl e
                      | Inr c \<Rightarrow> Inr (node, c)) (map fst (dag sp))"

text \<open>
  The \<open>while\<close> loop of \<open>find_cost_function\<close>. Nothing bounds the number of its
  iterations: a run that never meets the tolerance is the value \<open>None\<close>.
\<close>

partial_function (option) cost_loop ::
  "shortest_path \<Rightarrow> (string \<times> real) list \<Rightarrow> (string \<times> real) list
     \<Rightarrow> (error + (string \<times> real) list) option" where
  "cost_loop sp J_n J_np1 =
     (case compare_J sp J_n J_np1 of
        Inl e \<Rightarrow> Some (Inl e)
      | Inr d \<Rightarrow>
          if d > 1 / 10 ^ 10 then
            (case bellman_sweep sp J_np1 of
               Inl e \<Rightarrow> Some (Inl e)
             | Inr J' \<Rightarrow> cost_loop sp J_np1 J')
          else Some (Inr J_np1))"

definition find_cost_function :: "shortest_path \<Rightarrow> (error + (string \<times> real) list) option" where
  "find_cost_function sp =
     cost_loop sp (map (\<lambda>v. (v, 100)) (map fst (dag sp))) (map (\<lambda>v. (v, 0)) (map fst (dag sp)))"

text \<open>The inner loop of \<open>find_shortest_path\<close> over the actions of a node.\<close>

fun optimal_action ::
  "shortest_path \<Rightarrow> (string \<times> real) list \<Rightarrow> string \<Rightarrow> string list \<Rightarrow> string \<Rightarrow> real
     \<Rightarrow> error + string" where
  "optimal_action sp J cnode [] opt min_cost = Inr opt"
| "optimal_action sp J cnode (w # ws) opt min_cost =
     (case eval_action sp cnode w J of
        Inl e \<Rightarrow> Inl e
      | Inr J_v \<Rightarrow> if J_v < min_cost then optimal_action sp J cnode ws w J_v
                   else optimal_action sp J cnode ws opt min_cost)"

partial_function (option) path_loop ::
  "shortest_path \<Rightarrow> (string \<times> real) list \<Rightarrow> string \<Rightarrow> string list
     \<Rightarrow> (error + string list) option" where
  "path_loop sp J cnode cpath =
     (if is_at_end sp cnode then Some (Inr cpath)
      else (case available_actions sp cnode of
              Inl e \<Rightarrow> Some (Inl e)
            | Inr actions \<Rightarrow>
                (case actions of
                   [] \<Rightarrow> Some (Inl IndexError)
                 | a0 # _ \<Rightarrow>
                     (case optimal_action sp J cnode actions a0 (10 ^ 10) of
                        Inl e \<Rightarrow> Some (Inl e)
                      | Inr w \<Rightarrow> path_loop sp J w (cpath @ [w])))))"

definition find_shortest_path ::
  "shortest_path \<Rightarrow> (string \<times> real) list \<Rightarrow> (error + string list) option" where
  "find_shortest_path sp J = path_loop sp J (vertex sp) [vertex sp]"

subsection \<open>BruteForceShortestPath\<close>

definition step_back_path :: "string list \<Rightarrow> error + (string \<times> string list)" where
  "step_back_path cpath =
     (if butlast cpath = [] then Inl IndexError
      else Inr (last (butlast cpath), butlast cpath))"

text \<open>
  The \<open>while\<close> loop of \<open>traverse_paths\<close>. \<open>avail\<close> is the dictionary
  \<open>available_actions\<close> of the lists of actions not yet tried; \<open>cactions.pop()\<close> removes
  the last entry of the list stored there.
\<close>

partial_function (option) traverse_loop ::
  "shortest_path \<Rightarrow> (string \<rightharpoonup> string list) \<Rightarrow> string \<Rightarrow> string list
     \<Rightarrow> (string list \<times> real) list \<Rightarrow> (error + (string list \<times> real) list) option" where
  "traverse_loop sp avail cnode cpath paths_costs =
     (if length cpath > 0 then
        (case avail cnode of
           None \<Rightarrow> Some (Inl KeyError)
         | Some cactions \<Rightarrow>
             if is_at_end sp cnode then
               (case evaluate_path sp cpath of
                  Inl e \<Rightarrow> Some (Inl e)
                | Inr cost \<Rightarrow>
                    (case step_back_path cpath of
                       Inl e \<Rightarrow> Some (Inl e)
                     | Inr (cnode', cpath') \<Rightarrow>
                         traverse_loop sp avail cnode' cpath' (dict_set paths_costs cpath cost)))
             else if length cactions = 0 \<and> length cpath > 1 then
               (case available_actions sp cnode of
                  Inl e \<Rightarrow> Some (Inl e)
                | Inr acts \<Rightarrow>
                    (case step_back_path cpath of
                       Inl e \<Rightarrow> Some (Inl e)
                     | Inr (cnode', cpath') \<Rightarrow>
                         traverse_loop sp (avail(cnode \<mapsto> acts)) cnode' cpath' paths_costs))
             else if length cactions > 0 then
               traverse_loop sp (avail(cnode \<mapsto> butlast cactions)) (last cactions)
                 (cpath @ [last cactions]) paths_costs
             else Some (Inr paths_costs))
      else Some (Inr paths_costs))"

definition traverse_paths :: "shortest_path \<Rightarrow> (error + (string list \<times> real) list) option" where
  "traverse_paths sp =
     (case collect (\<lambda>k. case available_actions sp k of
                           Inl e \<Rightarrow> Inl e
                         | Inr acts \<Rightarrow> Inr (k, acts)) (map fst (dag sp)) of
        Inl e \<Rightarrow> Some (Inl e)
      | Inr avail \<Rightarrow> traverse_loop sp (map_of avail) (vertex sp) [vertex sp] [])"

definition find_shortest_paths :: "shortest_path \<Rightarrow> (error + string list list) option" where
  "find_shortest_paths sp =
     (case traverse_paths sp of
        None \<Rightarrow> None
      | Some (Inl e) \<Rightarrow> Some (Inl e)
      | Some (Inr paths_costs) \<Rightarrow>
          if paths_costs = [] then Some (Inl ValueError)
          else Some (Inr (map fst (filter (\<lambda>pc. snd pc \<le> py_min (map snd paths_costs))
                                      paths_costs))))"

text \<open>The graph of the notebook.\<close>

definition simple_cost_dict :: "(string \<times> (string \<times> real) list) list" where
  "simple_cost_dict =
     [(''A'', [(''B'', 1), (''C'', 5), (''D'', 3)]),
      (''B'', [(''D'', 9), (''E'', 6)]),
      (''C'', [(''F'', 2)]),
      (''D'', [(''F'', 4), (''G'', 8)]),
      (''E'', [(''G'', 4)]),
      (''F'', [(''G'', 1)]),
      (''G'', [])]"

section \<open>Reference notions the properties are stated with\<close>

text \<open>
  The emission probability \<open>E[i, y]\<close> as a number, for a symbol \<open>y\<close> that indexes the
  emission rows validly.
\<close>

definition emission :: "HMMBB \<Rightarrow> nat \<Rightarrow> int \<Rightarrow> real" where
  "emission h i y = (case emp_col h y of Inl e \<Rightarrow> 0 | Inr e \<Rightarrow> sel2 e i)"

text \<open>All sequences of \<open>n\<close> hidden states, and the joint probability of a sequence of
  hidden states and a sequence of observations under the uniform initial distribution:
  \<open>0.5 * E[x0, y0] * P[x0, x1] * E[x1, y1] * ...\<close>.\<close>

fun state_seqs :: "nat \<Rightarrow> nat list list" where
  "state_seqs 0 = [[]]"
| "state_seqs (Suc n) = concat (map (\<lambda>x. map ((#) x) (state_seqs n)) states)"

fun path_weight :: "HMMBB \<Rightarrow> nat \<Rightarrow> int list \<Rightarrow> nat list \<Rightarrow> real" where
  "path_weight h x (y # ys) (x' # xs) = P_at h x x' * emission h x' y * path_weight h x' ys xs"
| "path_weight h x _ _ = 1"

definition joint_probability :: "HMMBB \<Rightarrow> nat list \<Rightarrow> int list \<Rightarrow> real" where
  "joint_probability h xs ys =
     (case (xs, ys) of
        (x0 # xs', y0 # ys') \<Rightarrow> 0.5 * emission h x0 y0 * path_weight h x0 ys' xs'
      | _ \<Rightarrow> 1)"

definition total_weight :: "HMMBB \<Rightarrow> nat \<Rightarrow> int list \<Rightarrow> real" where
  "total_weight h x ys = (\<Sum>xs\<leftarrow>state_seqs (length ys). path_weight h x ys xs)"

text \<open>The joint log-probability of a path, for a model with positive probabilities:
  \<open>log 0.5 + log E[x0, y0]\<close> and then \<open>log P[x(t-1), xt] + log E[xt, yt]\<close> for each
  later period.\<close>

fun step_log_probability :: "HMMBB \<Rightarrow> nat \<Rightarrow> int list \<Rightarrow> nat list \<Rightarrow> real" where
  "step_log_probability h x (y # ys) (x' # xs) =
     ln (P_at h x x') + ln (emission h x' y) + step_log_probability h x' ys xs"
| "step_log_probability h x _ _ = 0"

definition joint_log_probability :: "HMMBB \<Rightarrow> nat list \<Rightarrow> int list \<Rightarrow> real" where
  "joint_log_probability h xs ys =
     (case (xs, ys) of
        (x0 # xs', y0 # ys') \<Rightarrow>
          ln 0.5 + ln (emission h x0 y0) + step_log_probability h x0 ys' xs'
      | _ \<Rightarrow> 0)"

text \<open>
  The rows \<open>filtering_probs[T - 1, :]\<close> and \<open>smoothing_probs[T - 1, :]\<close> of the two
  tables as \<open>killer_graph\<close> computes them, and the comparison \<open>==\<close> of two rows in
  all their entries.
\<close>

definition rows_equal :: "npfloat \<times> npfloat \<Rightarrow> npfloat \<times> npfloat \<Rightarrow> bool" where
  "rows_equal r r' = (np_eq (fst r) (fst r') \<and> np_eq (snd r) (snd r'))"

definition last_rows64 ::
  "(npfloat \<Rightarrow> npfloat) \<Rightarrow> (npfloat \<Rightarrow> npfloat) \<Rightarrow> HMMBB \<Rightarrow> int list
     \<Rightarrow> error + ((npfloat \<times> npfloat) \<times> (npfloat \<times> npfloat))" where
  "last_rows64 lg ex h realized_returns =
     (case forward64 h realized_returns of
        Inl e \<Rightarrow> Inl e
      | Inr alphas \<Rightarrow>
          (case backward64 lg ex h realized_returns of
             Inl e \<Rightarrow> Inl e
           | Inr betas \<Rightarrow>
               (case smooth_probabilities64 alphas betas of
                  Inl e \<Rightarrow> Inl e
                | Inr smoothing_probs \<Rightarrow>
                    Inr (filter_probabilities64 alphas ! (length realized_returns - 1),
                         smoothing_probs ! (length realized_returns - 1)))))"

text \<open>\<open>np.log\<close> and \<open>np.exp\<close> rounded correctly, to run examples.\<close>

definition log64 :: "npfloat \<Rightarrow> npfloat" where
  "log64 v = rounded (np_log v)"

definition exp64 :: "npfloat \<Rightarrow> npfloat" where
  "exp64 v = rounded (np_exp v)"

text \<open>
  The models \<open>HMMBB(0.5, 0.5, [2.0**-600, 1.0], [2.0**-600, 1.0])\<close> and
  \<open>HMMBB(0.5, 0.5, [0.5, 0.5], [0.5, 0.5])\<close>: every entry is a float, and so is
  \<open>1 - 0.5\<close>.
\<close>

definition underflow_hmm :: HMMBB where
  "underflow_hmm = \<lparr>P = ((1 / 2, 1 / 2), (1 / 2, 1 / 2)), emp = ([1 / 2 ^ 600, 1], [1 / 2 ^ 600, 1])\<rparr>"

definition half_hmm :: HMMBB where
  "half_hmm = \<lparr>P = ((1 / 2, 1 / 2), (1 / 2, 1 / 2)), emp = ([1 / 2, 1 / 2], [1 / 2, 1 / 2])\<rparr>"

text \<open>A model with persistent states and three symbols, as
  \<open>HMMBB(0.9, 0.9, [0.3, 0.5, 0.2], [0.6, 0.3, 0.1])\<close> builds it.\<close>

definition bb_hmm :: HMMBB where
  "bb_hmm = \<lparr>P = ((9/10, 1/10), (1/10, 9/10)),
             emp = ([3/10, 5/10, 2/10], [6/10, 3/10, 1/10])\<rparr>"

text \<open>The notebook's problem, its cost function, and a graph with a cycle of negative
  cost.\<close>

definition simple_problem :: shortest_path where
  "simple_problem = \<lparr>dag = simple_cost_dict, vertex = ''A'', terminal = ''G''\<rparr>"

definition Jstar :: "(string \<times> real) list" where
  "Jstar = [(''A'', 8), (''B'', 10), (''C'', 3), (''D'', 5), (''E'', 4), (''F'', 1), (''G'', 0)]"

definition negative_cycle :: shortest_path where
  "negative_cycle =
     \<lparr>dag = [(''A'', [(''A'', - 1)]), (''G'', [])], vertex = ''A'', terminal = ''G''\<rparr>"

text \<open>
  The state \<open>(J_n, J_np1)\<close> of \<open>find_cost_function\<close> when its loop condition is
  evaluated for the \<open>n\<close>-th time (counting from 0), provided the loop got that far, and
  whether that evaluation asks for one more iteration.
\<close>

fun cost_state ::
  "shortest_path \<Rightarrow> nat \<Rightarrow> error + ((string \<times> real) list \<times> (string \<times> real) list)" where
  "cost_state sp 0 =
     Inr (map (\<lambda>v. (v, 100)) (map fst (dag sp)), map (\<lambda>v. (v, 0)) (map fst (dag sp)))"
| "cost_state sp (Suc n) =
     (case cost_state sp n of
        Inl e \<Rightarrow> Inl e
      | Inr (J_n, J_np1) \<Rightarrow>
          (case bellman_sweep sp J_np1 of Inl e \<Rightarrow> Inl e | Inr J' \<Rightarrow> Inr (J_np1, J')))"

definition continues :: "shortest_path \<Rightarrow> nat \<Rightarrow> bool" where
  "continues sp n =
     (case cost_state sp n of
        Inl e \<Rightarrow> False
      | Inr (J_n, J_np1) \<Rightarrow>
          (case compare_J sp J_n J_np1 of Inl e \<Rightarrow> False | Inr d \<Rightarrow> d > 1 / 10 ^ 10))"

section \<open>Notions for comparing the two solvers\<close>

text \<open>
  The keys of the graph in their order, the edges that leave a node, and the list that
  \<open>available_actions\<close> returns for a node of the graph.
\<close>

definition nodes :: "shortest_path \<Rightarrow> string list" where
  "nodes sp = map fst (dag sp)"

definition out_edges :: "shortest_path \<Rightarrow> string \<Rightarrow> (string \<times> real) list" where
  "out_edges sp v = (case map_of (dag sp) v of None \<Rightarrow> [] | Some es \<Rightarrow> es)"



definition bell :: "shortest_path \<Rightarrow> (string \<Rightarrow> real) \<Rightarrow> string \<Rightarrow> real" where
  "bell sp f v =
     (if v = terminal sp then 0 else py_min (map (\<lambda>wc. snd wc + f (fst wc)) (out_edges sp v)))"

fun iter :: "shortest_path \<Rightarrow> nat \<Rightarrow> string \<Rightarrow> real" where
  "iter sp 0 = (\<lambda>v. 0)"
| "iter sp (Suc n) = bell sp (iter sp n)"

text \<open>
  The graphs on which the two solvers are compared. The keys are distinct, the start and
  the terminal are keys and differ, every edge leads to a key, and every node but the
  terminal has an edge. \<open>rank\<close> decreases along every edge: the graph is acyclic and a
  path from \<open>v\<close> has at most \<open>rank v\<close> edges. Every cost is an integer between
  \<open>-B\<close> and \<open>B\<close>, as in the cost dictionary of the notebook, and \<open>B * rank v\<close> stays
  below the \<open>1e10\<close> with which \<open>find_shortest_path\<close> starts its search for the
  minimum. On such a graph every number the two solvers form is an integer of absolute
  value below \<open>1e10\<close>: Python computes it exactly, with \<open>int\<close> costs and with \<open>float\<close>
  costs of integer value alike (lemmas \<open>eval_action_not_rounded\<close> and
  \<open>path_cost_not_rounded\<close>).
\<close>

definition graph_ok :: "(string \<Rightarrow> nat) \<Rightarrow> real \<Rightarrow> shortest_path \<Rightarrow> bool" where
  "graph_ok rank B sp =
     (distinct (nodes sp) \<and> vertex sp \<in> set (nodes sp) \<and> terminal sp \<in> set (nodes sp)
      \<and> vertex sp \<noteq> terminal sp \<and> 0 \<le> B
      \<and> list_all (\<lambda>ves. distinct (map fst (snd ves))
             \<and> (fst ves = terminal sp \<or> snd ves \<noteq> [])
             \<and> B * real (rank (fst ves)) < 10 ^ 10
             \<and> list_all (\<lambda>wc. fst wc \<in> set (nodes sp) \<and> rank (fst wc) < rank (fst ves)
                              \<and> snd wc \<in> \<int> \<and> - B \<le> snd wc \<and> snd wc \<le> B) (snd ves)) (dag sp))"

text \<open>
  Lists of nodes joined by edges, paths that end at the terminal and do not pass through
  it, the cost of a list of nodes, the paths from a node in the order in which
  \<open>traverse_paths\<close> finds them (the last action first), and the dictionary
  \<open>paths_costs\<close> after a list of paths has been stored in it.
\<close>

fun is_chain :: "shortest_path \<Rightarrow> string list \<Rightarrow> bool" where
  "is_chain sp (v # w # rest) = (w \<in> set (map fst (out_edges sp v)) \<and> is_chain sp (w # rest))"
| "is_chain sp _ = True"


fun path_cost :: "shortest_path \<Rightarrow> string list \<Rightarrow> real" where
  "path_cost sp (v # w # rest) = the (map_of (out_edges sp v) w) + path_cost sp (w # rest)"
| "path_cost sp _ = 0"




definition far_problem :: shortest_path where
  "far_problem =
     \<lparr>dag = [(''A'', [(''B'', 3 * 10 ^ 10), (''C'', 2 * 10 ^ 10)]),
             (''B'', [(''G'', 1)]), (''C'', [(''G'', 1)]), (''G'', [])],
      vertex = ''A'', terminal = ''G''\<rparr>"

definition far_J :: "(string \<times> real) list" where
  "far_J = [(''A'', 2 * 10 ^ 10 + 1), (''B'', 1), (''C'', 1), (''G'', 0)]"



definition start_at_terminal :: shortest_path where
  "start_at_terminal = \<lparr>dag = simple_cost_dict, vertex = ''G'', terminal = ''G''\<rparr>"

section \<open>The forward pass and the likelihood\<close>

lemma forward_row_simp:
  "forward_row h prev e = (fst e * (fst prev * P_at h 0 0 + snd prev * P_at h 1 0),
                            snd e * (fst prev * P_at h 0 1 + snd prev * P_at h 1 1))"
  by (simp add: forward_row_def states_def sel2_def)

lemma emp_col_ok:
  assumes "length (fst (emp h)) = k" "length (snd (emp h)) = k" "- int k \<le> y" "y < int k"
  shows "\<exists>e. emp_col h y = Inr e"
  using assms by (auto simp: emp_col_def getitem_def Let_def)

lemma emp_col_emission: "emp_col h y = Inr e \<Longrightarrow> e = (emission h 0 y, emission h 1 y)"
  by (simp add: emission_def sel2_def)

lemma total_weight_Nil: "total_weight h x [] = 1"
  by (simp add: total_weight_def)

lemma total_weight_Cons:
  "total_weight h x (y # ys) =
     P_at h x 0 * emission h 0 y * total_weight h 0 ys + P_at h x 1 * emission h 1 y * total_weight h 1 ys"
  by (simp add: total_weight_def states_def sum_list_const_mult o_def)

lemma forward_rows_ok:
  assumes "length (fst (emp h)) = k" "length (snd (emp h)) = k" "\<forall>y\<in>set ys. - int k \<le> y \<and> y < int k"
  shows "\<exists>rows. forward_rows h prev ys = Inr rows \<and> length rows = length ys"
  using assms
proof (induction ys arbitrary: prev)
  case Nil then show ?case by simp
next
  case (Cons y ys)
  obtain e where e: "emp_col h y = Inr e" using emp_col_ok[of h k y] Cons.prems by auto
  obtain rows where "forward_rows h (forward_row h prev e) ys = Inr rows \<and> length rows = length ys"
    using Cons.IH[of "forward_row h prev e"] Cons.prems by auto
  then show ?case using e by simp
qed

lemma forward_rows_last:
  "forward_rows h prev ys = Inr rows \<Longrightarrow> 
     fst (last (prev # rows)) * 1 + snd (last (prev # rows)) = fst prev * total_weight h 0 ys + snd prev * total_weight h 1 ys"
proof (induction ys arbitrary: prev rows)
  case Nil then show ?case by (simp add: total_weight_Nil)
next
  case (Cons y ys)
  from Cons.prems obtain e rows' where e: "emp_col h y = Inr e"
    and r: "forward_rows h (forward_row h prev e) ys = Inr rows'" and rows: "rows = forward_row h prev e # rows'"
    by (auto split: sum.splits)
  have ee: "e = (emission h 0 y, emission h 1 y)" using emp_col_emission[OF e] .
  show ?case using Cons.IH[OF r] unfolding rows
    by (simp add: total_weight_Cons forward_row_simp ee algebra_simps)
qed

lemma forward_rows_nth:
  "forward_rows h prev ys = Inr rows \<Longrightarrow> t < length ys \<Longrightarrow>
     (prev # rows) ! Suc t = forward_row h ((prev # rows) ! t) (emission h 0 (ys ! t), emission h 1 (ys ! t))"
proof (induction ys arbitrary: prev rows t)
  case Nil then show ?case by simp
next
  case (Cons y ys)
  from Cons.prems obtain e rows' where e: "emp_col h y = Inr e"
    and r: "forward_rows h (forward_row h prev e) ys = Inr rows'" and rows: "rows = forward_row h prev e # rows'"
    by (auto split: sum.splits)
  have ee: "e = (emission h 0 y, emission h 1 y)" using emp_col_emission[OF e] .
  show ?case
  proof (cases t)
    case 0 then show ?thesis using rows ee by simp
  next
    case (Suc t')
    then show ?thesis using Cons.IH[OF r, of t'] Cons.prems(2) rows by simp
  qed
qed

lemma sum_list_half: "(\<Sum>x\<leftarrow>xs. c * f x / 2) = c * (\<Sum>x\<leftarrow>xs. f x) / (2::real)"
  by (induction xs) (simp_all add: field_simps)

lemma joint_sum:
  "(\<Sum>xs\<leftarrow>state_seqs (Suc (length ys)). joint_probability h xs (y0 # ys)) =
     (emission h 0 y0 * 0.5) * total_weight h 0 ys + (emission h 1 y0 * 0.5) * total_weight h 1 ys"
  by (simp add: total_weight_def states_def joint_probability_def o_def sum_list_half)

text \<open>The example model evaluated.\<close>

lemma bb_emp_col: "emp_col bb_hmm 0 = Inr (3/10, 6/10)" "emp_col bb_hmm 1 = Inr (5/10, 3/10)"
  "emp_col bb_hmm 2 = Inr (2/10, 1/10)"
  by (simp_all add: emp_col_def bb_hmm_def getitem_def)

lemma bb_P: "P_at bb_hmm 0 0 = 9/10" "P_at bb_hmm 0 (Suc 0) = 1/10" "P_at bb_hmm (Suc 0) 0 = 1/10"
  "P_at bb_hmm (Suc 0) (Suc 0) = 9/10"
  "sel2 (P bb_hmm) 0 = (9/10, 1/10)" "sel2 (P bb_hmm) (Suc 0) = (1/10, 9/10)"
  by (simp_all add: P_at_def bb_hmm_def sel2_def)

lemma bb_emission: "emission bb_hmm 0 0 = 3/10" "emission bb_hmm (Suc 0) 0 = 6/10"
  "emission bb_hmm 0 1 = 5/10" "emission bb_hmm (Suc 0) 1 = 3/10"
  by (simp_all add: emission_def bb_emp_col sel2_def)

lemma bb_forward: "forward bb_hmm [0, 1] = Inr [(3/20, 3/10), (33/400, 171/2000)]"
  by (simp add: forward_def bb_emp_col forward_row_simp bb_P)

lemma bb_forward1: "forward bb_hmm [0] = Inr [(3/20, 3/10)]"
  by (simp add: forward_def bb_emp_col)

text \<open>
  C4. For observations \<open>ys\<close> of length \<open>T \<ge> 1\<close> that index the \<open>k\<close> emission
  columns validly, \<open>forward\<close> returns a table of \<open>T\<close> rows with
  \<open>alpha[0, i] = E[i, y0] * 0.5\<close> and
  \<open>alpha[t, i] = E[i, yt] * (alpha[t-1, 0] * P[0, i] + alpha[t-1, 1] * P[1, i])\<close> for
  \<open>1 \<le> t < T\<close>, and the entries of its last row add up to the sum of the joint
  probability over all \<open>2 ^ T\<close> sequences of hidden states.
\<close>

theorem forward_recursion_and_likelihood:
  assumes "ys \<noteq> []"
    and "length (fst (emp h)) = k" and "length (snd (emp h)) = k"
    and "\<forall>y\<in>set ys. - int k \<le> y \<and> y < int k"
  shows "\<exists>alphas. forward h ys = Inr alphas \<and> length alphas = length ys
    \<and> (\<forall>i<2. sel2 (alphas ! 0) i = emission h i (ys ! 0) * 0.5)
    \<and> (\<forall>t i. 1 \<le> t \<and> t < length ys \<and> i < 2 \<longrightarrow>
          sel2 (alphas ! t) i =
            emission h i (ys ! t) * (\<Sum>j\<leftarrow>states. sel2 (alphas ! (t - 1)) j * P_at h j i))
    \<and> (\<Sum>i\<leftarrow>states. sel2 (alphas ! (length ys - 1)) i) =
        (\<Sum>xs\<leftarrow>state_seqs (length ys). joint_probability h xs ys)"
proof -
  obtain y0 ys' where ys: "ys = y0 # ys'" by (cases ys) (use assms(1) in auto)
  obtain e where e: "emp_col h y0 = Inr e"
    using emp_col_ok[OF assms(2,3), of y0] assms(4) ys by auto
  have ee: "e = (emission h 0 y0, emission h 1 y0)" using emp_col_emission[OF e] .
  define a0 where "a0 = (fst e * 0.5, snd e * 0.5)"
  obtain rows where rows: "forward_rows h a0 ys' = Inr rows" and len: "length rows = length ys'"
    using forward_rows_ok[OF assms(2,3), of ys' a0] assms(4) ys by auto
  have fw: "forward h ys = Inr (a0 # rows)"
    using e rows by (simp add: forward_def ys a0_def)
  have first: "\<forall>i<2. sel2 ((a0 # rows) ! 0) i = emission h i (ys ! 0) * 0.5"
    by (auto simp: a0_def ee sel2_def ys less_Suc_eq numeral_2_eq_2)
  have step: "sel2 ((a0 # rows) ! t) i =
            emission h i (ys ! t) * (\<Sum>j\<leftarrow>states. sel2 ((a0 # rows) ! (t - 1)) j * P_at h j i)"
    if t1: "1 \<le> t" and t2: "t < length ys" and i2: "i < 2" for t i
  proof -
    obtain t' where t': "t = Suc t'" by (cases t) (use t1 in auto)
    have "t' < length ys'" using t2 t' ys by simp
    from forward_rows_nth[OF rows this] have
      "(a0 # rows) ! t = forward_row h ((a0 # rows) ! t') (emission h 0 (ys ! t), emission h 1 (ys ! t))"
      by (simp add: t' ys)
    then show ?thesis using i2
      by (auto simp: forward_row_simp sel2_def states_def t' less_Suc_eq numeral_2_eq_2)
  qed
  have lastidx: "(a0 # rows) ! (length ys - 1) = last (a0 # rows)"
    using len ys last_conv_nth[of "a0 # rows"] by simp
  have "(\<Sum>i\<leftarrow>states. sel2 ((a0 # rows) ! (length ys - 1)) i) = fst (last (a0 # rows)) + snd (last (a0 # rows))"
    unfolding lastidx by (simp add: states_def sel2_def)
  also have "\<dots> = fst a0 * total_weight h 0 ys' + snd a0 * total_weight h 1 ys'"
    using forward_rows_last[OF rows] by simp
  also have "\<dots> = (\<Sum>xs\<leftarrow>state_seqs (length ys). joint_probability h xs ys)"
    unfolding ys using joint_sum[where ys=ys' and h=h and ?y0.0=y0] by (simp add: a0_def ee)
  finally have total: "(\<Sum>i\<leftarrow>states. sel2 ((a0 # rows) ! (length ys - 1)) i) =
        (\<Sum>xs\<leftarrow>state_seqs (length ys). joint_probability h xs ys)" .
  show ?thesis
    using fw len first step total ys by (intro exI[of _ "a0 # rows"]) auto
qed

theorem forward_recursion_and_likelihood_witness:
  "(\<Sum>xs\<leftarrow>state_seqs (length [0, 1 :: int]). joint_probability bb_hmm xs [0, 1]) = 21 / 125"
proof -
  have k: "length (fst (emp bb_hmm)) = 3" "length (snd (emp bb_hmm)) = 3"
    by (simp_all add: bb_hmm_def)
  have r: "\<forall>y\<in>set [0, 1 :: int]. - int 3 \<le> y \<and> y < int 3" by simp
  have ne: "[0, 1 :: int] \<noteq> []" by simp
  from forward_recursion_and_likelihood[OF ne k r] show ?thesis
    by (auto simp: bb_forward states_def sel2_def)
qed

section \<open>Filtering and smoothing\<close>

lemma exp_log3:
  assumes "0 \<le> a" "0 \<le> b" "0 \<le> c"
  shows "np_exp (np_add (np_add (np_log (Fin a)) (np_log (Fin b))) (np_log (Fin c))) = Fin (a * b * c)"
proof -
  have pos: "x \<noteq> 0 \<Longrightarrow> 0 \<le> x \<Longrightarrow> exp (ln x) = x" for x :: real by simp
  show ?thesis using assms by (auto simp: exp_add pos)
qed

lemma backward_row_nonneg:
  assumes "0 \<le> fst e" "0 \<le> snd e" "0 \<le> b0" "0 \<le> b1"
    "0 \<le> P_at h 0 0" "0 \<le> P_at h 0 1" "0 \<le> P_at h 1 0" "0 \<le> P_at h 1 1"
  shows "backward_row h e (Fin b0, Fin b1) =
     (Fin (fst e * b0 * P_at h 0 0 + snd e * b1 * P_at h 0 1),
      Fin (fst e * b0 * P_at h 1 0 + snd e * b1 * P_at h 1 1))"
  using assms by (simp add: backward_row_def backward_val_def states_def sel2_def exp_log3 del: np_log.simps)

lemma bb_backward: "backward bb_hmm [0, 1] = Inr [(Fin (12/25), Fin (8/25)), (Fin 1, Fin 1)]"
  by (simp add: backward_def bb_emp_col backward_row_nonneg bb_P)

lemma bb_backward1: "backward bb_hmm [0] = Inr [(Fin 1, Fin 1)]"
  by (simp add: backward_def)

lemma bb_filtered_last: "last (filter_probabilities [(3/20, 3/10), (33/400, 171/2000)]) = (Fin (55/112), Fin (57/112))"
  by (simp add: filter_probabilities_def normalize_row_def)

section \<open>Rounding to float64\<close>

lemma round_even_int: "round_even (of_int m) = m"
  by (simp add: round_even_def)

lemma round_even_le: "x \<le> of_int m \<Longrightarrow> round_even x \<le> m"
proof -
  assume a: "x \<le> of_int m"
  have f: "\<lfloor>x\<rfloor> \<le> m" using a by (simp add: floor_le_iff)
  show ?thesis
  proof (cases "\<lfloor>x\<rfloor> = m")
    case True
    then have "x = of_int m" using a by linarith
    then show ?thesis by (simp add: round_even_int)
  next
    case False
    then have "\<lfloor>x\<rfloor> + 1 \<le> m" using f by simp
    then show ?thesis by (simp add: round_even_def)
  qed
qed

lemma round_even_ge: "of_int m \<le> x \<Longrightarrow> m \<le> round_even x"
proof -
  assume a: "of_int m \<le> x"
  have f: "m \<le> \<lfloor>x\<rfloor>" using a by (simp add: le_floor_iff)
  then show ?thesis by (simp add: round_even_def)
qed

lemma quantum_pos: "0 < quantum a"
  by (simp add: quantum_def)


lemma below_top: assumes "0 < a" shows "a < 2 powr (of_int (expo a) + 1)"
proof -
  have "a < 2 powr (of_int \<lfloor>log 2 a\<rfloor> + 1)"
    using floor_log_eq_powr_iff[of a 2 "\<lfloor>log 2 a\<rfloor>"] assms by simp
  also have "\<dots> \<le> 2 powr (of_int (expo a) + 1)"
    by (simp add: expo_def)
  finally show ?thesis .
qed

lemma expo_le: assumes "0 < y" "y < 2 powr (of_int k + 1)" "- 1022 \<le> k" shows "expo y \<le> k"
proof -
  have "log 2 y < of_int k + 1" using assms(1,2) by (simp add: log_less_iff)
  then have "\<lfloor>log 2 y\<rfloor> \<le> k" by linarith
  then show ?thesis using assms(3) by (simp add: expo_def)
qed

lemma expo_pow: assumes "- 1022 \<le> k" shows "expo (2 powr of_int k) = k"
  using assms by (simp add: expo_def)

lemma ratio_bound: assumes "0 < a" shows "a / quantum a < 2 ^ 53"
proof -
  have "a / quantum a < 2 powr (of_int (expo a) + 1) / quantum a"
    using below_top[OF assms] quantum_pos[of a] by (simp add: divide_strict_right_mono)
  also have "\<dots> = 2 powr 53"
    by (simp add: quantum_def powr_diff[symmetric])
  also have "\<dots> = 2 ^ 53" using powr_realpow[of 2 53] by simp
  finally show ?thesis .
qed


lemma round_even_nonneg: "0 \<le> x \<Longrightarrow> 0 \<le> round_even x"
  using round_even_ge[of 0 x] by simp

lemma on_grid:
  assumes a: "0 < a" and y: "y = of_int (round_even (a / quantum a)) * quantum a" and pos: "0 < y"
  shows "of_int (round_even (y / quantum y)) * quantum y = y"
proof -
  define n where "n = round_even (a / quantum a)"
  have k: "- 1022 \<le> expo a" by (simp add: expo_def)
  have "a / quantum a \<le> of_int (2 ^ 53)" using ratio_bound[OF a] by simp
  then have n53: "n \<le> 2 ^ 53" unfolding n_def by (rule round_even_le)
  have yn: "y = of_int n * quantum a" using y by (simp add: n_def)
  have top: "2 ^ 53 * quantum a = 2 powr (of_int (expo a) + 1)"
  proof -
    have eq: "real_of_int (expo a) + 1 = 53 + (real_of_int (expo a) - 52)" by simp
    have "(2::real) powr (of_int (expo a) + 1) = 2 powr (53 + (of_int (expo a) - 52))"
      by (rule arg_cong[OF eq])
    also have "\<dots> = 2 powr 53 * 2 powr (of_int (expo a) - 52)" by (simp only: powr_add)
    also have "(2::real) powr 53 = 2 ^ 53" using powr_realpow[of 2 53] by simp
    finally show ?thesis by (simp add: quantum_def)
  qed
  have "\<exists>m::int. y / quantum y = of_int m"
  proof (cases "n = 2 ^ 53")
    case True
    then have y2: "y = 2 powr of_int (expo a + 1)" using yn top by simp
    have e: "expo y = expo a + 1" unfolding y2 using k by (intro expo_pow) simp
    have "y / quantum y = 2 powr (of_int (expo a + 1) - (of_int (expo a + 1) - 52))"
      unfolding quantum_def e unfolding y2 by (simp only: powr_diff)
    also have "\<dots> = 2 powr 52" by simp
    also have "\<dots> = of_int (2 ^ 52)" using powr_realpow[of 2 52] by simp
    finally show ?thesis by blast
  next
    case False
    then have "n < 2 ^ 53" using n53 by simp
    then have "(of_int n :: real) < 2 ^ 53" by (metis of_int_less_iff of_int_numeral of_int_power)
    then have "y < 2 ^ 53 * quantum a" using yn quantum_pos[of a] by simp
    then have "y < 2 powr (of_int (expo a) + 1)" using top by simp
    then have le: "expo y \<le> expo a" using expo_le[OF pos _ k] by simp
    define d where "d = nat (expo a - expo y)"
    have "quantum a / quantum y = 2 powr (of_int (expo a) - of_int (expo y))"
      by (simp add: quantum_def powr_diff[symmetric])
    also have "\<dots> = 2 powr (real d)" using le by (simp add: d_def)
    also have "\<dots> = 2 ^ d" by (simp add: powr_realpow)
    finally have q: "quantum a / quantum y = 2 ^ d" .
    have "y / quantum y = of_int n * (quantum a / quantum y)" by (simp add: yn)
    also have "\<dots> = of_int (n * 2 ^ d)" by (simp add: q)
    finally show ?thesis by blast
  qed
  then obtain m :: int where m: "y / quantum y = of_int m" by blast
  have "of_int (round_even (y / quantum y)) * quantum y = (y / quantum y) * quantum y"
    by (simp add: m round_even_int)
  also have "\<dots> = y" using quantum_pos[of y] by simp
  finally show ?thesis .
qed

lemma float64_fixed:
  assumes a: "0 < a" and y: "y = of_int (round_even (a / quantum a)) * quantum a"
    and small: "\<not> 2 ^ 1024 \<le> y"
  shows "float64 y = Fin y" "float64 (- y) = Fin (- y)"
proof -
  have n: "0 \<le> round_even (a / quantum a)"
    using a quantum_pos[of a] by (intro round_even_nonneg) simp
  then have y0: "0 \<le> y" using quantum_pos[of a] by (simp add: y)
  show "float64 y = Fin y"
  proof (cases "y = 0")
    case True then show ?thesis by (simp add: float64_def)
  next
    case False
    then have pos: "0 < y" using y0 by simp
    from on_grid[OF a y pos] small pos show ?thesis by (simp add: float64_def)
  qed
  show "float64 (- y) = Fin (- y)"
  proof (cases "y = 0")
    case True then show ?thesis by (simp add: float64_def)
  next
    case False
    then have pos: "0 < y" using y0 by simp
    from on_grid[OF a y pos] small pos show ?thesis by (simp add: float64_def)
  qed
qed

lemma float64_idem:
  assumes "float64 x = Fin v"
  shows "float64 v = Fin v"
proof (cases "x = 0")
  case True
  then show ?thesis using assms by (auto simp: float64_def)
next
  case False
  define y where "y = of_int (round_even (\<bar>x\<bar> / quantum \<bar>x\<bar>)) * quantum \<bar>x\<bar>"
  have a: "0 < \<bar>x\<bar>" using False by simp
  have small: "\<not> 2 ^ 1024 \<le> y" using assms False by (auto simp: float64_def y_def split: if_splits)
  have "v = y \<or> v = - y" using assms False by (auto simp: float64_def y_def split: if_splits)
  then show ?thesis using float64_fixed[OF a y_def small] by auto
qed

lemma float64_not_nan: "float64 x \<noteq> NaN"
  by (simp add: float64_def)



lemma grid_fix:
  assumes "y / quantum y = of_int j"
  shows "of_int (round_even (y / quantum y)) * quantum y = y"
proof -
  have "of_int (round_even (y / quantum y)) * quantum y = (y / quantum y) * quantum y"
    by (simp add: assms round_even_int)
  also have "\<dots> = y" using quantum_pos[of y] by simp
  finally show ?thesis .
qed

lemma float64_exact:
  assumes m: "0 < m" "m < 2 ^ 53" and k: "- 1074 \<le> k" "k \<le> 971"
  shows "float64 (of_int m * 2 powr of_int k) = Fin (of_int m * 2 powr of_int k)"
    "float64 (- (of_int m * 2 powr of_int k)) = Fin (- (of_int m * 2 powr of_int k))"
proof -
  define y :: real where "y = of_int m * 2 powr of_int k"
  have pos: "0 < y" using m(1) by (simp add: y_def)
  have mr: "(of_int m :: real) < 2 ^ 53" using m(2) by (metis of_int_less_iff of_int_numeral of_int_power)
  have p53: "(2::real) powr 53 = 2 ^ 53" using powr_realpow[of 2 53] by simp
  have eq: "53 + real_of_int k = real_of_int (k + 52) + 1" by simp
  have y53: "y < 2 ^ 53 * 2 powr of_int k" using mr by (simp add: y_def)
  also have "\<dots> = 2 powr (53 + of_int k)" by (simp only: powr_add p53)
  also have "\<dots> = 2 powr (of_int (k + 52) + 1)" by (rule arg_cong[OF eq])
  finally have ylt: "y < 2 powr (of_int (k + 52) + 1)" .
  have le: "expo y \<le> k + 52" using expo_le[OF pos ylt] k(1) by simp
  define d where "d = nat (k + 52 - expo y)"
  have dd: "of_int k - (of_int (expo y) - 52) = real d" using le by (simp add: d_def)
  have "2 powr of_int k / quantum y = 2 powr (of_int k - (of_int (expo y) - 52))"
    by (simp only: quantum_def powr_diff)
  also have "\<dots> = 2 powr (real d)" by (simp only: dd)
  also have "\<dots> = 2 ^ d" by (simp add: powr_realpow)
  finally have q: "2 powr of_int k / quantum y = 2 ^ d" .
  have "y / quantum y = of_int m * (2 powr of_int k / quantum y)" by (simp add: y_def)
  also have "\<dots> = of_int (m * 2 ^ d)" by (simp add: q)
  finally have fx: "of_int (round_even (y / quantum y)) * quantum y = y" by (rule grid_fix)
  have "real_of_int k \<le> real 971" using k(2) by simp
  then have "2 powr of_int k \<le> (2::real) powr (real 971)" by (intro powr_mono) simp_all
  also have "\<dots> = 2 ^ 971" by (simp only: powr_realpow zero_less_numeral)
  finally have "2 ^ 53 * 2 powr of_int k \<le> (2::real) ^ 53 * 2 ^ 971" by simp
  also have "(2::real) ^ 53 * 2 ^ 971 = 2 ^ 1024" by (simp add: power_add[symmetric])
  finally have top: "y < 2 ^ 1024" using y53 by linarith
  show "float64 (of_int m * 2 powr of_int k) = Fin (of_int m * 2 powr of_int k)"
    using top fx pos unfolding y_def[symmetric] by (simp add: float64_def)
  show "float64 (- (of_int m * 2 powr of_int k)) = Fin (- (of_int m * 2 powr of_int k))"
    using top fx pos unfolding y_def[symmetric] by (simp add: float64_def)
qed


lemma float64_dyadic:
  assumes "0 \<le> m" "m < 2 ^ 53" "n \<le> 1074"
  shows "float64 (of_int m / 2 ^ n) = Fin (of_int m / 2 ^ n)"
proof (cases "m = 0")
  case True then show ?thesis by (simp add: float64_def)
next
  case False
  have "(2::real) powr of_int (- int n) = 1 / 2 ^ n"
    by (simp add: powr_minus powr_realpow divide_inverse)
  then show ?thesis
    using float64_exact(1)[of m "- int n"] assms False by simp
qed


lemma float64_underflow:
  assumes "0 < x" "x < 1 / 2 ^ 1075"
  shows "float64 x = Fin 0"
proof -
  have p: "(2::real) powr (- real 1075) = 1 / 2 ^ 1075"
    by (simp only: powr_minus powr_realpow zero_less_numeral inverse_eq_divide)
  have xp: "x < 2 powr (- real 1075)" using assms(2) by (simp only: p)
  have "- real 1075 \<le> real_of_int (- 1022) + 1" by simp
  then have "(2::real) powr (- real 1075) \<le> 2 powr (real_of_int (- 1022) + 1)"
    by (intro powr_mono) simp_all
  then have "x < 2 powr (real_of_int (- 1022) + 1)" using xp by linarith
  then have "expo x \<le> - 1022" using expo_le[OF assms(1), of "- 1022"] by simp
  moreover have "- 1022 \<le> expo x" by (simp add: expo_def)
  ultimately have e: "expo x = - 1022" by simp
  have q: "quantum x = 2 powr (- real 1074)" by (simp add: quantum_def e)
  have "x / quantum x < 2 powr (- real 1075) / quantum x"
    using xp quantum_pos[of x] by (simp only: divide_strict_right_mono)
  also have "\<dots> = 2 powr (- real 1075 - (- real 1074))" by (simp only: q powr_diff)
  also have "- real 1075 - (- real 1074) = - 1" by simp
  also have "(2::real) powr (- 1) = 1 / 2" using powr_neg_one[of "2::real"] by simp
  finally have lt: "x / quantum x < 1 / 2" .
  have ge: "0 \<le> x / quantum x" using assms(1) quantum_pos[of x] by simp
  have "x / quantum x < 1" using lt by linarith
  then have fl: "\<lfloor>x / quantum x\<rfloor> = 0" using ge by (simp only: floor_eq_iff of_int_0 of_int_1 add_0 simp_thms)
  have "round_even (x / quantum x) = 0" using lt by (simp add: round_even_def fl)
  then show ?thesis using assms(1) by (simp add: float64_def)
qed


lemma float64_integer:
  assumes "x \<in> \<int>" "\<bar>x\<bar> < 2 ^ 53"
  shows "float64 x = Fin x"
proof -
  obtain m :: int where x: "x = of_int m" using assms(1) by (auto elim: Ints_cases)
  have "real_of_int \<bar>m\<bar> < real_of_int (2 ^ 53)" using assms(2) by (simp add: x)
  then have b: "\<bar>m\<bar> < 2 ^ 53" by (simp only: of_int_less_iff)
  consider "m = 0" | "0 < m" | "m < 0" by linarith
  then show ?thesis
  proof cases
    case 1 then show ?thesis by (simp add: x float64_def)
  next
    case 2
    then show ?thesis using float64_exact(1)[of m 0] b by (simp add: x)
  next
    case 3
    then show ?thesis using float64_exact(2)[of "- m" 0] b by (simp add: x)
  qed
qed

lemma expo_eq:
  assumes "2 powr of_int k \<le> x" "x < 2 powr (of_int k + 1)" "- 1022 \<le> k"
  shows "expo x = k"
proof -
  have "0 < (2::real) powr of_int k" by simp
  then have pos: "0 < x" using assms(1) by linarith
  have "\<lfloor>log 2 x\<rfloor> = k" using floor_log_eq_powr_iff[of x 2 k] pos assms(1,2) by simp
  then show ?thesis using assms(3) by (simp add: expo_def)
qed

lemma float64_tie: "float64 (2 ^ 31 + 1 / 2 ^ 22) = Fin (2 ^ 31)"
proof -
  define x :: real where "x = 2 ^ 31 + 1 / 2 ^ 22"
  have p31: "(2::real) powr of_int 31 = 2 ^ 31" using powr_realpow[of 2 31] by simp
  have p32: "(2::real) powr (of_int 31 + 1) = 2 ^ 32" using powr_realpow[of 2 32] by simp
  have "expo x = 31"
  proof (rule expo_eq)
    show "2 powr of_int 31 \<le> x" unfolding p31 by (simp add: x_def)
    show "x < 2 powr (of_int 31 + 1)" unfolding p32 by (simp add: x_def)
  qed simp
  then have q: "quantum x = 1 / 2 ^ 21"
    using powr_realpow[of 2 21] by (simp add: quantum_def powr_minus_divide)
  have r: "x / quantum x = of_int (2 ^ 52) + 1 / 2" unfolding q by (simp add: x_def)
  have fl: "\<lfloor>x / quantum x\<rfloor> = 2 ^ 52" unfolding r by (simp add: floor_eq_iff)
  have "round_even (x / quantum x) = 2 ^ 52"
    unfolding round_even_def fl unfolding r by simp
  moreover have "0 < x" by (simp add: x_def)
  ultimately have "float64 x = Fin (2 ^ 31)" by (simp add: float64_def q)
  then show ?thesis by (simp only: x_def)
qed

section \<open>Smoothing at the last period\<close>

lemma float64_0: "float64 0 = Fin 0" by (simp add: float64_def)

lemma fl_mul_one:
  assumes "float64 a = Fin a"
  shows "fl_mul (Fin a) (Fin 1) = Fin a"
  using assms by (simp add: fl_mul_def rounded_def)

lemma rounded_Fin: "rounded v = Fin a \<Longrightarrow> float64 a = Fin a"
  by (cases v) (auto simp: rounded_def intro: float64_idem)

lemma forward_row64_float:
  assumes "forward_row64 h prev e = (Fin a0, Fin a1)"
  shows "float64 a0 = Fin a0" "float64 a1 = Fin a1"
  using assms by (auto simp: forward_row64_def fl_mul_def Let_def intro: rounded_Fin)

lemma first_row64_float:
  assumes "first_row64 e = (Fin a0, Fin a1)"
  shows "float64 a0 = Fin a0" "float64 a1 = Fin a1"
  using assms by (auto simp: first_row64_def fl_mul_def intro: rounded_Fin)

lemma forward_rows64_last:
  assumes "forward_rows64 h prev ys = Inr rows" "last (prev # rows) = (Fin a0, Fin a1)"
    "prev = (Fin a0, Fin a1) \<Longrightarrow> float64 a0 = Fin a0 \<and> float64 a1 = Fin a1"
  shows "float64 a0 = Fin a0 \<and> float64 a1 = Fin a1"
  using assms
proof (induction ys arbitrary: prev rows)
  case Nil then show ?case by simp
next
  case (Cons y ys)
  from Cons.prems(1) obtain e rows' where e: "emp_col h y = Inr e"
    and r: "forward_rows64 h (forward_row64 h prev e) ys = Inr rows'" and rows: "rows = forward_row64 h prev e # rows'"
    by (auto split: sum.splits)
  have l: "last (forward_row64 h prev e # rows') = (Fin a0, Fin a1)" using Cons.prems(2) rows by simp
  show ?case using Cons.IH[OF r l] forward_row64_float by blast
qed

lemma forward_rows64_shape:
  assumes "forward_rows64 h prev ys = Inr rows"
  shows "length rows = length ys \<and> (\<forall>y\<in>set ys. \<exists>e. emp_col h y = Inr e)"
  using assms
proof (induction ys arbitrary: prev rows)
  case Nil then show ?case by simp
next
  case (Cons y ys)
  from Cons.prems(1) obtain e rows' where e: "emp_col h y = Inr e"
    and r: "forward_rows64 h (forward_row64 h prev e) ys = Inr rows'" and rows: "rows = forward_row64 h prev e # rows'"
    by (auto split: sum.splits)
  show ?case using Cons.IH[OF r] e rows by simp
qed

lemma forward64_shape:
  assumes "forward64 h ys = Inr alphas"
  shows "ys \<noteq> []" "length alphas = length ys" "\<forall>y\<in>set ys. \<exists>e. emp_col h y = Inr e"
proof -
  from assms obtain y0 ys' e rows where ys: "ys = y0 # ys'" and e: "emp_col h y0 = Inr e"
    and r: "forward_rows64 h (first_row64 e) ys' = Inr rows" and al: "alphas = first_row64 e # rows"
    by (auto simp: forward64_def split: list.splits sum.splits)
  note sh = forward_rows64_shape[OF r]
  show "ys \<noteq> []" by (simp add: ys)
  show "length alphas = length ys" using sh by (simp add: ys al)
  show "\<forall>y\<in>set ys. \<exists>e. emp_col h y = Inr e" using sh e by (simp add: ys)
qed

lemma forward64_last_float:
  assumes "forward64 h ys = Inr alphas" "last alphas = (Fin a0, Fin a1)"
  shows "float64 a0 = Fin a0 \<and> float64 a1 = Fin a1"
proof -
  from assms(1) obtain y0 ys' e rows where ys: "ys = y0 # ys'" and e: "emp_col h y0 = Inr e"
    and r: "forward_rows64 h (first_row64 e) ys' = Inr rows" and al: "alphas = first_row64 e # rows"
    by (auto simp: forward64_def split: list.splits sum.splits)
  show ?thesis
    using forward_rows64_last[OF r] assms(2) al first_row64_float by blast
qed

lemma backward_loop64_ok:
  assumes "\<forall>y\<in>set ys. \<exists>e. emp_col h y = Inr e" "rows \<noteq> []"
  shows "\<exists>r. backward_loop64 lg ex h ys rows = Inr r \<and> length r = length ys + length rows \<and> last r = last rows"
  using assms
proof (induction ys arbitrary: rows)
  case Nil then show ?case by simp
next
  case (Cons y ys)
  obtain b rows' where rows: "rows = b # rows'" using Cons.prems(2) by (cases rows) auto
  obtain e where e: "emp_col h y = Inr e" using Cons.prems(1) by auto
  have "\<exists>r. backward_loop64 lg ex h ys (backward_row64 lg ex h e b # b # rows') = Inr r 
      \<and> length r = length ys + length (backward_row64 lg ex h e b # b # rows')
      \<and> last r = last (backward_row64 lg ex h e b # b # rows')"
    using Cons.IH[of "backward_row64 lg ex h e b # b # rows'"] Cons.prems(1) by simp
  then show ?case using e rows by auto
qed

lemma backward64_ok:
  assumes "ys \<noteq> []" "\<forall>y\<in>set ys. \<exists>e. emp_col h y = Inr e"
  shows "\<exists>betas. backward64 lg ex h ys = Inr betas \<and> length betas = length ys \<and> last betas = (Fin 1, Fin 1)"
proof -
  obtain y0 ys' where ys: "ys = y0 # ys'" by (cases ys) (use assms(1) in auto)
  have "\<forall>y\<in>set (rev ys'). \<exists>e. emp_col h y = Inr e" using assms(2) ys by simp
  from backward_loop64_ok[OF this, of "[(Fin 1, Fin 1)]"] show ?thesis
    by (auto simp: backward64_def ys)
qed

lemma np_eq_float64: "np_eq (float64 x) (float64 x)"
  by (cases "float64 x") (simp_all add: float64_not_nan)


lemma last_rows64_value:
  assumes fw: "forward64 h ys = Inr alphas" and la: "last alphas = (a0, a1)"
  shows "\<exists>betas. backward64 lg ex h ys = Inr betas \<and> betas ! (length ys - 1) = (Fin 1, Fin 1)
         \<and> last_rows64 lg ex h ys
             = Inr (normalize_row64 (a0, a1), normalize_row64 (fl_mul a0 (Fin 1), fl_mul a1 (Fin 1)))"
proof -
  note sh = forward64_shape[OF fw]
  obtain betas where bw: "backward64 lg ex h ys = Inr betas" and lenb: "length betas = length ys"
    and lastb: "last betas = (Fin 1, Fin 1)"
    using backward64_ok[OF sh(1,3)] by blast
  have ne: "alphas \<noteq> []" "betas \<noteq> []" using sh(1,2) lenb by auto
  define smoothed where "smoothed = map (\<lambda>(a, b). normalize_row64
                          (fl_mul (fst a) (fst b), fl_mul (snd a) (snd b))) (zip alphas betas)"
  have sm: "smooth_probabilities64 alphas betas = Inr smoothed"
    using sh(2) lenb by (simp add: smooth_probabilities64_def broadcast_rows_def smoothed_def)
  have ls: "last smoothed = normalize_row64 (fl_mul a0 (Fin 1), fl_mul a1 (Fin 1))"
    using ne sh(2) lenb lastb la by (simp add: smoothed_def last_map last_zip)
  have lf: "last (filter_probabilities64 alphas) = normalize_row64 (a0, a1)"
    using ne la by (simp add: filter_probabilities64_def last_map)
  have idx: "betas ! (length ys - 1) = last betas" "smoothed ! (length ys - 1) = last smoothed"
    "filter_probabilities64 alphas ! (length ys - 1) = last (filter_probabilities64 alphas)"
    using ne sh(2) lenb by (simp_all add: last_conv_nth smoothed_def filter_probabilities64_def)
  show ?thesis using fw bw sm lastb ls lf idx by (simp add: last_rows64_def)
qed

text \<open>The two rows do not depend on what \<open>np.log\<close> and \<open>np.exp\<close> return.\<close>

lemma last_rows64_log_exp: "last_rows64 lg ex h ys = last_rows64 lg' ex' h ys"
proof (cases "forward64 h ys")
  case (Inl e)
  then show ?thesis by (simp add: last_rows64_def)
next
  case (Inr alphas)
  obtain a0 a1 where la: "last alphas = (a0, a1)" by (cases "last alphas") auto
  from last_rows64_value[OF Inr la, of lg ex] last_rows64_value[OF Inr la, of lg' ex']
  show ?thesis by auto
qed

lemma underflow_emp_col: "emp_col underflow_hmm 0 = Inr (1 / 2 ^ 600, 1 / 2 ^ 600)"
  by (simp add: emp_col_def getitem_def underflow_hmm_def)

lemma underflow_forward:
  "forward64 underflow_hmm [0, 0] = Inr [(Fin (1 / 2 ^ 601), Fin (1 / 2 ^ 601)), (Fin 0, Fin 0)]"
proof -
  have r1: "float64 (1 / 2 ^ 601) = Fin (1 / 2 ^ 601)" using float64_dyadic[of 1 601] by simp
  have r2: "float64 (1 / 2 ^ 602) = Fin (1 / 2 ^ 602)" using float64_dyadic[of 1 602] by simp
  have r3: "float64 (1 / 2 ^ 1201) = Fin 0" by (rule float64_underflow) simp_all
  have first: "first_row64 (1 / 2 ^ 600, 1 / 2 ^ 600) = (Fin (1 / 2 ^ 601), Fin (1 / 2 ^ 601))"
    using r1 by (simp add: first_row64_def fl_mul_def rounded_def)
  have m: "fl_mul (Fin (1 / 2 ^ 601)) (Fin (1 / 2)) = Fin (1 / 2 ^ 602)"
    using r2 by (simp add: fl_mul_def rounded_def)
  have a1: "fl_add (Fin 0) (Fin (1 / 2 ^ 602)) = Fin (1 / 2 ^ 602)"
    using r2 by (simp add: fl_add_def rounded_def)
  have a2: "fl_add (Fin (1 / 2 ^ 602)) (Fin (1 / 2 ^ 602)) = Fin (1 / 2 ^ 601)"
    using r1 by (simp add: fl_add_def rounded_def)
  have m2: "fl_mul (Fin (1 / 2 ^ 600)) (Fin (1 / 2 ^ 601)) = Fin 0"
    using r3 by (simp add: fl_mul_def rounded_def)
  have row: "forward_row64 underflow_hmm (Fin (1 / 2 ^ 601), Fin (1 / 2 ^ 601)) (1 / 2 ^ 600, 1 / 2 ^ 600)
      = (Fin 0, Fin 0)"
    unfolding forward_row64_def states_def sel2_def P_at_def underflow_hmm_def
    by (simp only: foldl.simps Let_def fst_conv snd_conv HMMBB.simps if_True if_False
         zero_neq_one one_neq_zero simp_thms m a1 a2 m2)
  show ?thesis
    by (simp only: forward64_def list.case underflow_emp_col sum.case first forward_rows64.simps row)
qed

text \<open>
  C9, the claim as stated fails. For \<open>HMMBB(0.5, 0.5, [2.0**-600, 1.0], [2.0**-600, 1.0])\<close>
  and the observations \<open>[0, 0]\<close> the symbol observed has the positive emission
  probability \<open>2 ^ -600\<close> in both states. The first row of \<open>alphas\<close> is
  \<open>2 ^ -601\<close> twice, both predictors of the second row are \<open>2 ^ -601\<close>, and the
  products \<open>2 ^ -600 * 2 ^ -601\<close> underflow: the last row of \<open>alphas\<close> is
  \<open>(0.0, 0.0)\<close>. Its sum is zero, so the last rows of the filtered and of the
  smoothed probabilities are both \<open>(nan, nan)\<close>, and \<open>==\<close> is false on them.
  Every number of the model is a float, both emission rows sum to \<open>1.0\<close> in float64,
  and by \<open>last_rows64_log_exp\<close> the result is the same for every \<open>np.log\<close> and
  \<open>np.exp\<close>.
\<close>

theorem smoothed_last_underflow_counterexample:
  "0 < emission underflow_hmm 0 0 \<and> 0 < emission underflow_hmm 1 0
   \<and> forward64 underflow_hmm [0, 0] = Inr [(Fin (1 / 2 ^ 601), Fin (1 / 2 ^ 601)), (Fin 0, Fin 0)]
   \<and> last_rows64 log64 exp64 underflow_hmm [0, 0] = Inr ((NaN, NaN), (NaN, NaN))
   \<and> \<not> rows_equal (NaN, NaN) (NaN, NaN)"
proof -
  have l: "last [(Fin (1 / 2 ^ 601), Fin (1 / 2 ^ 601)), (Fin 0, Fin 0)] = (Fin 0, Fin 0)" by simp
  have n: "normalize_row64 (Fin 0, Fin 0) = (NaN, NaN)"
    by (simp add: normalize_row64_def fl_add_def fl_div_def rounded_def float64_0)
  have m: "fl_mul (Fin 0) (Fin 1) = Fin 0" by (simp add: fl_mul_def rounded_def float64_0)
  have e: "0 < emission underflow_hmm 0 0 \<and> 0 < emission underflow_hmm 1 0"
    by (simp add: emission_def underflow_emp_col sel2_def)
  from last_rows64_value[OF underflow_forward l, of log64 exp64] show ?thesis
    using e underflow_forward by (auto simp: n m rows_equal_def)
qed

text \<open>
  C9, amended. Whenever \<open>forward\<close> returns and the last row of \<open>alphas\<close> is finite
  with a sum \<open>s\<close> that is finite and not zero (the forward pass has not underflowed
  to a row of zeros), then, whatever \<open>np.log\<close> and \<open>np.exp\<close> return, \<open>backward\<close>
  returns a table whose last row is \<open>(1, 1)\<close> and the rows \<open>T - 1\<close> of the filtered
  and of the smoothed probabilities are the same row, the last row of \<open>alphas\<close>
  divided by \<open>s\<close>, equal under \<open>==\<close> in every entry.
\<close>

theorem smoothed_last_equals_filtered_last_without_underflow:
  assumes fw: "forward64 h ys = Inr alphas"
    and la: "last alphas = (Fin a0, Fin a1)"
    and s: "fl_add (Fin a0) (Fin a1) = Fin s"
    and nz: "s \<noteq> 0"
  shows "\<exists>betas. backward64 lg ex h ys = Inr betas \<and> betas ! (length ys - 1) = (Fin 1, Fin 1)
         \<and> last_rows64 lg ex h ys = Inr ((float64 (a0 / s), float64 (a1 / s)),
                                          (float64 (a0 / s), float64 (a1 / s)))
         \<and> rows_equal (float64 (a0 / s), float64 (a1 / s)) (float64 (a0 / s), float64 (a1 / s))"
proof -
  have fl: "float64 a0 = Fin a0" "float64 a1 = Fin a1" using forward64_last_float[OF fw la] by simp_all
  define f where "f = (float64 (a0 / s), float64 (a1 / s))"
  have nr: "normalize_row64 (Fin a0, Fin a1) = f"
    using s nz by (simp add: normalize_row64_def fl_div_def rounded_def f_def)
  have re: "rows_equal f f" by (simp add: f_def rows_equal_def np_eq_float64)
  obtain betas where bw: "backward64 lg ex h ys = Inr betas" "betas ! (length ys - 1) = (Fin 1, Fin 1)"
    and lr: "last_rows64 lg ex h ys
       = Inr (normalize_row64 (Fin a0, Fin a1), normalize_row64 (fl_mul (Fin a0) (Fin 1), fl_mul (Fin a1) (Fin 1)))"
    using last_rows64_value[OF fw la, of lg ex] by blast
  have "last_rows64 lg ex h ys = Inr (f, f)" using lr nr fl by (simp add: fl_mul_one)
  then show ?thesis using bw re unfolding f_def by blast
qed

lemma half_emp_col: "emp_col half_hmm 0 = Inr (1 / 2, 1 / 2)"
  by (simp add: emp_col_def getitem_def half_hmm_def)

lemma half_forward:
  "forward64 half_hmm [0, 0] = Inr [(Fin (1 / 4), Fin (1 / 4)), (Fin (1 / 8), Fin (1 / 8))]"
proof -
  have r1: "float64 (1 / 4) = Fin (1 / 4)" using float64_dyadic[of 1 2] by simp
  have r2: "float64 (1 / 8) = Fin (1 / 8)" using float64_dyadic[of 1 3] by simp
  have first: "first_row64 (1 / 2, 1 / 2) = (Fin (1 / 4), Fin (1 / 4))"
    using r1 by (simp add: first_row64_def fl_mul_def rounded_def)
  have m: "fl_mul (Fin (1 / 4)) (Fin (1 / 2)) = Fin (1 / 8)"
    using r2 by (simp add: fl_mul_def rounded_def)
  have a1: "fl_add (Fin 0) (Fin (1 / 8)) = Fin (1 / 8)"
    using r2 by (simp add: fl_add_def rounded_def)
  have a2: "fl_add (Fin (1 / 8)) (Fin (1 / 8)) = Fin (1 / 4)"
    using r1 by (simp add: fl_add_def rounded_def)
  have m2: "fl_mul (Fin (1 / 2)) (Fin (1 / 4)) = Fin (1 / 8)"
    using r2 by (simp add: fl_mul_def rounded_def)
  have row: "forward_row64 half_hmm (Fin (1 / 4), Fin (1 / 4)) (1 / 2, 1 / 2) = (Fin (1 / 8), Fin (1 / 8))"
    unfolding forward_row64_def states_def sel2_def P_at_def half_hmm_def
    by (simp only: foldl.simps Let_def fst_conv snd_conv HMMBB.simps if_True if_False
         zero_neq_one one_neq_zero simp_thms m a1 a2 m2)
  show ?thesis
    by (simp only: forward64_def list.case half_emp_col sum.case first forward_rows64.simps row)
qed

theorem smoothed_last_equals_filtered_last_without_underflow_witness:
  "forward64 half_hmm [0, 0] = Inr [(Fin (1 / 4), Fin (1 / 4)), (Fin (1 / 8), Fin (1 / 8))]
   \<and> fl_add (Fin (1 / 8)) (Fin (1 / 8)) = Fin (1 / 4)
   \<and> (\<exists>betas. backward64 log64 exp64 half_hmm [0, 0] = Inr betas \<and> betas ! 1 = (Fin 1, Fin 1))
   \<and> last_rows64 log64 exp64 half_hmm [0, 0] = Inr ((Fin (1 / 2), Fin (1 / 2)), (Fin (1 / 2), Fin (1 / 2)))
   \<and> rows_equal (Fin (1 / 2), Fin (1 / 2)) (Fin (1 / 2), Fin (1 / 2))"
proof -
  have l: "last [(Fin (1 / 4), Fin (1 / 4)), (Fin (1 / 8), Fin (1 / 8))] = (Fin (1 / 8), Fin (1 / 8))"
    by simp
  have r1: "float64 (1 / 4) = Fin (1 / 4)" using float64_dyadic[of 1 2] by simp
  have s: "fl_add (Fin (1 / 8)) (Fin (1 / 8)) = Fin (1 / 4)"
    using r1 by (simp add: fl_add_def rounded_def)
  have nz: "(1 / 4 :: real) \<noteq> 0" by simp
  have r0: "float64 (1 / 2) = Fin (1 / 2)" using float64_dyadic[of 1 1] by simp
  from smoothed_last_equals_filtered_last_without_underflow[OF half_forward l s nz, of log64 exp64]
  show ?thesis using half_forward s r0 by auto
qed

section \<open>Sampling a path\<close>

text \<open>
  C1. At the observations \<open>[0, 1]\<close> (\<open>T = 2\<close>) the sampler is asked twice, and both
  times for the filtered probabilities of the last period, \<open>(55/112, 57/112)\<close>: the
  guard \<open>t - 1 > 0\<close> skips the update before \<open>x_0\<close> is drawn. With \<open>x_1 = 0\<close> the
  probabilities proportional to \<open>P[i, x_1] * beta[0, i]\<close> are \<open>(27/29, 2/29)\<close>.
\<close>

theorem ffbs_first_state_at_failing_input:
  "ffbs recording_draw bb_hmm [0, 1] [] =
      Inr ([0, 0], [(Fin (55/112), Fin (57/112)), (Fin (55/112), Fin (57/112))])
   \<and> backward bb_hmm [0, 1] = Inr [(Fin (12/25), Fin (8/25)), (Fin 1, Fin 1)]
   \<and> P_col bb_hmm 0 = Inr (9/10, 1/10)
   \<and> normalize_row (np_mul (Fin (9/10)) (Fin (12/25)), np_mul (Fin (1/10)) (Fin (8/25)))
        = (Fin (27/29), Fin (2/29))"
  by (simp add: ffbs_def bb_forward bb_backward bb_filtered_last recording_draw_def numeral_2_eq_2
        P_col_def bb_P normalize_row_def update_probs_def)

lemma ffbs_loop_stream:
  assumes "\<forall>n<t. g n = g' n"
  shows "returned (ffbs_loop DiscreteRV_draw h betas t probs g)
           = returned (ffbs_loop DiscreteRV_draw h betas t probs g')
       \<and> (\<forall>xs gT. ffbs_loop DiscreteRV_draw h betas t probs g = Inr (xs, gT)
             \<longrightarrow> length xs = t \<and> gT = (\<lambda>n. g (n + t)))"
  using assms
proof (induction t arbitrary: probs g g')
  case 0 then show ?case by (simp add: returned_def)
next
  case (Suc t)
  have g0: "g 0 = g' 0" using Suc.prems by simp
  have tl: "\<forall>n<t. g (Suc n) = g' (Suc n)" using Suc.prems by simp
  define x where "x = fst (DiscreteRV_draw probs g)"
  have x: "DiscreteRV_draw probs g' = (x, (\<lambda>n. g' (Suc n)))"
     "DiscreteRV_draw probs g = (x, (\<lambda>n. g (Suc n)))"
    using g0 by (simp_all add: x_def DiscreteRV_draw_def Let_def)
  show ?case
  proof (cases "update_probs h betas t probs x")
    case (Inl e)
    then show ?thesis using x by (simp add: returned_def)
  next
    case (Inr p)
    have IH: "returned (ffbs_loop DiscreteRV_draw h betas t p (\<lambda>n. g (Suc n))) =
      returned (ffbs_loop DiscreteRV_draw h betas t p (\<lambda>n. g' (Suc n)))"
      "\<And>xs gT. ffbs_loop DiscreteRV_draw h betas t p (\<lambda>n. g (Suc n)) = Inr (xs, gT) \<Longrightarrow>
          length xs = t \<and> gT = (\<lambda>n. g (Suc (n + t)))"
      using Suc.IH[of "\<lambda>n. g (Suc n)" "\<lambda>n. g' (Suc n)" p] tl by auto
    show ?thesis
    proof (cases "ffbs_loop DiscreteRV_draw h betas t p (\<lambda>n. g (Suc n))")
      case (Inl e)
      then have "ffbs_loop DiscreteRV_draw h betas t p (\<lambda>n. g' (Suc n)) = Inl e"
        using IH(1) by (cases "ffbs_loop DiscreteRV_draw h betas t p (\<lambda>n. g' (Suc n))") (auto simp: returned_def)
      then show ?thesis using Inl Inr x(1) x(2) by (simp add: returned_def)
    next
      case r: (Inr res)
      obtain xs gT where res: "res = (xs, gT)" by (cases res)
      from IH(2) r res have a: "length xs = t" "gT = (\<lambda>n. g (Suc (n + t)))" by auto
      from IH(1) r res obtain gT' where r': "ffbs_loop DiscreteRV_draw h betas t p (\<lambda>n. g' (Suc n)) = Inr (xs, gT')"
        by (cases "ffbs_loop DiscreteRV_draw h betas t p (\<lambda>n. g' (Suc n))") (auto simp: returned_def)
      show ?thesis using Inr r r' res a x(1) x(2) by (simp add: returned_def)
    qed
  qed
qed

text \<open>
  C7, the claim as stated fails: \<open>ffbs\<close> takes no random source, it draws from the
  generator of the process. Two calls in a row with the same model and the same
  observations return the paths \<open>[0]\<close> and \<open>[1]\<close>.
\<close>

theorem ffbs_hidden_generator_counterexample:
  "returned (sample_paths DiscreteRV_draw bb_hmm [0] 2 low_high) = Inr [[0], [1]]"
  by (simp add: numeral_2_eq_2 returned_def ffbs_def bb_forward1 bb_backward1 filter_probabilities_def normalize_row_def
        DiscreteRV_draw_def low_high_def update_probs_def)

text \<open>
  C7, amended. The path returned by \<open>ffbs\<close> is determined by the model, the
  observations and the next \<open>T\<close> variates of the generator at the time of the call: two
  generators that agree on them give the same path (or the same exception), and a call
  that returns leaves the generator advanced by exactly \<open>T\<close> variates.
\<close>

theorem ffbs_path_from_generator_state:
  assumes "\<forall>n<length ys. g n = g' n"
  shows "returned (ffbs DiscreteRV_draw h ys g) = returned (ffbs DiscreteRV_draw h ys g')
       \<and> (\<forall>xs gT. ffbs DiscreteRV_draw h ys g = Inr (xs, gT)
             \<longrightarrow> length xs = length ys \<and> gT = (\<lambda>n. g (n + length ys)))"
  using ffbs_loop_stream[OF assms] by (simp add: ffbs_def returned_def split: sum.splits)

theorem ffbs_path_from_generator_state_witness:
  "returned (ffbs DiscreteRV_draw bb_hmm [0] low_high) = Inr [0]
   \<and> returned (ffbs DiscreteRV_draw bb_hmm [0] (\<lambda>n. 1 / 10)) = Inr [0]"
proof -
  have "\<forall>n<length [0::int]. low_high n = (\<lambda>n. 1 / 10) n" by (simp add: low_high_def)
  from ffbs_path_from_generator_state[OF this, of bb_hmm] show ?thesis
    by (simp add: returned_def ffbs_def bb_forward1 bb_backward1 filter_probabilities_def normalize_row_def
        DiscreteRV_draw_def low_high_def update_probs_def)
qed

section \<open>Construction\<close>

text \<open>
  C6, the claim as stated fails: emission rows that do not sum to one and contain a
  negative entry are accepted.
\<close>

theorem HMMBB_init_unvalidated_emissions:
  "HMMBB_init MarkovChain_check (9/10) (9/10) [1/2, 1/5] [- 1, 3]
     = Inr \<lparr>P = ((9/10, 1/10), (1/10, 9/10)), emp = ([1/2, 1/5], [- 1, 3])\<rparr>"
  by (simp add: HMMBB_init_def MarkovChain_check_def)

text \<open>
  C6, amended. Construction fails exactly when the Markov chain check rejects the
  transition matrix or the two emission rows differ in length. The rows of the
  transition matrix sum to one by construction, so with the check quantecon documents the
  first case is a \<open>p_bear\<close> or \<open>p_bull\<close> outside \<open>[0, 1]\<close>. The emission rows are
  stored as they are given.
\<close>

theorem HMMBB_init_checks:
  "HMMBB_init MarkovChain_ok p_bear p_bull r_bear_probs r_bull_probs =
     (if MarkovChain_ok ((p_bear, 1 - p_bear), (1 - p_bull, p_bull))
         \<and> length r_bear_probs = length r_bull_probs
      then Inr \<lparr>P = ((p_bear, 1 - p_bear), (1 - p_bull, p_bull)),
                emp = (r_bear_probs, r_bull_probs)\<rparr>
      else Inl ValueError)
   \<and> MarkovChain_check ((p_bear, 1 - p_bear), (1 - p_bull, p_bull)) =
       (0 \<le> p_bear \<and> p_bear \<le> 1 \<and> 0 \<le> p_bull \<and> p_bull \<le> 1)"
  by (auto simp: HMMBB_init_def MarkovChain_check_def Let_def)

theorem HMMBB_init_checks_witness:
  "HMMBB_init MarkovChain_check (3/2) (9/10) [1/2, 1/2] [1/2, 1/2] = Inl ValueError
   \<and> HMMBB_init MarkovChain_check (9/10) (9/10) [1/2, 1/2] [1] = Inl ValueError"
  using HMMBB_init_checks[of MarkovChain_check "3/2" "9/10" "[1/2, 1/2]" "[1/2, 1/2]"]
    HMMBB_init_checks[of MarkovChain_check "9/10" "9/10" "[1/2, 1/2]" "[1]"]
  by simp

section \<open>The most likely path\<close>

lemma np_log_pos: "0 < x \<Longrightarrow> np_log (Fin x) = Fin (ln x)"
  by simp

lemma py_max2_ln:
  assumes "0 < a" "0 < b"
  shows "py_max2 (Fin (ln a + c)) (Fin (ln b + c)) = Fin (ln (max a b) + c)"
  using assms by (auto simp: py_max2_def max_def)

lemma log_mu_row_pos:
  assumes "0 < fst e" "0 < snd e" "0 < P_at h 0 0" "0 < P_at h 0 1" "0 < P_at h 1 0" "0 < P_at h 1 1"
    "0 < q0" "0 < q1"
  shows "log_mu_row h e (Fin (ln q0 + c), Fin (ln q1 + c)) =
     (Fin (ln (max (fst e * P_at h 0 0 * q0) (snd e * P_at h 0 1 * q1)) + c),
      Fin (ln (max (fst e * P_at h 1 0 * q0) (snd e * P_at h 1 1 * q1)) + c))"
proof -
  have pv: "possible_value h e (Fin (ln q0 + c), Fin (ln q1 + c)) i j
      = Fin (ln (sel2 e j * P_at h i j * sel2 (q0, q1) j) + c)" if "i < 2" "j < 2" for i j
    using that assms by (auto simp: possible_value_def sel2_def ln_mult less_Suc_eq numeral_2_eq_2)
  show ?thesis
    using assms by (simp add: log_mu_row_def pv py_max2_ln sel2_def)
qed

lemma np_argmax_ln:
  assumes "0 < a0" "0 < a1" "0 < b0" "0 < b1" "0 < q0" "0 < q1"
  shows "np_argmax (add_row (add_row (log_row (a0, a1)) (log_row (b0, b1))) (Fin (ln q0 + c), Fin (ln q1 + c)))
     = (if a0 * b0 * q0 < a1 * b1 * q1 then 1 else 0)"
proof -
  have "add_row (add_row (log_row (a0, a1)) (log_row (b0, b1))) (Fin (ln q0 + c), Fin (ln q1 + c))
     = (Fin (ln (a0 * b0 * q0) + c), Fin (ln (a1 * b1 * q1) + c))"
    using assms by (simp add: add_row_def log_row_def ln_mult)
  then show ?thesis using assms by (simp add: np_argmax_def)
qed

lemma Fin_1: "Fin 1 = Fin (ln 1 + 1)" by simp

lemma np_argmax_ln3:
  assumes "0 < a0" "0 < a1" "0 < b0" "0 < b1" "0 < q0" "0 < q1"
  shows "np_argmax (add_row (add_row (Fin (ln a0), Fin (ln a1)) (Fin (ln b0), Fin (ln b1)))
            (Fin (ln q0 + c), Fin (ln q1 + c)))
     = (if a0 * b0 * q0 < a1 * b1 * q1 then 1 else 0)"
  using np_argmax_ln[OF assms, of c] assms by (simp add: log_row_def)

lemma np_argmax_ln2:
  assumes "0 < a0" "0 < a1" "0 < b0" "0 < b1"
  shows "np_argmax (add_row (add_row (Fin (ln a0), Fin (ln a1)) (Fin (ln b0), Fin (ln b1)))
            (Fin c, Fin c))
     = (if a0 * b0 < a1 * b1 then 1 else 0)"
  using np_argmax_ln3[OF assms, of 1 1 c] by simp

lemma bb_log_mus: "viterbi_log_mus bb_hmm [0, 1] = Inr [(Fin (ln (45/100) + 1), Fin (ln (27/100) + 1)), (Fin 1, Fin 1)]"
  apply (simp add: viterbi_log_mus_def bb_emp_col)
  apply (subst Fin_1)+
  apply (subst log_mu_row_pos)
  apply (simp_all add: bb_P)
  done

lemma bb_viterbi: "viterbi bb_hmm [0, 1] = Inr [0, 0]"
  by (simp add: viterbi_def bb_log_mus bb_emp_col log_row_def getitem_def bb_P np_argmax_ln3 np_argmax_ln2)

lemma ln4: 
  fixes a b c d :: real
  assumes "0 < a" "0 < b" "0 < c" "0 < d" 
  shows "ln a + ln b + (ln c + ln d) = ln (a * b * c * d)"
  using assms by (simp add: ln_mult)

lemma bb_joint: "joint_log_probability bb_hmm [0, 0] [0, 1] < joint_log_probability bb_hmm [1, 1] [0, 1]"
  by (simp add: joint_log_probability_def bb_emission bb_P ln4)

text \<open>
  C2. At the observations \<open>[0, 1]\<close> (\<open>T = 2\<close>) the last row of \<open>log_mus\<close> is
  \<open>(1, 1)\<close>, not \<open>(0, 0)\<close>: the table is allocated with \<open>np.ones\<close>. The first decoded
  state is 0, whereas the argmax of \<open>log E[i, y0] + log 0.5 + log_mu[0, i]\<close> is 1: the
  second loop starts at \<open>t = 0\<close> and overwrites \<open>xt_star[0]\<close>.
\<close>

theorem viterbi_table_at_failing_input:
  "viterbi_log_mus bb_hmm [0, 1] =
      Inr [(Fin (ln (45/100) + 1), Fin (ln (27/100) + 1)), (Fin 1, Fin 1)]
   \<and> viterbi bb_hmm [0, 1] = Inr [0, 0]
   \<and> np_argmax (add_row (add_row (log_row (3/10, 6/10)) (np_log (Fin 0.5), np_log (Fin 0.5)))
                   (Fin (ln (45/100) + 1), Fin (ln (27/100) + 1))) = 1"
  by (simp add: bb_log_mus bb_viterbi log_row_def np_argmax_ln3)

text \<open>
  C3. At the same input the path returned is \<open>[0, 0]\<close>, and the path \<open>[1, 1]\<close> has a
  strictly larger joint log-probability.
\<close>

theorem viterbi_path_not_optimal_at_failing_input:
  "viterbi bb_hmm [0, 1] = Inr [0, 0]
   \<and> joint_log_probability bb_hmm [0, 0] [0, 1] < joint_log_probability bb_hmm [1, 1] [0, 1]"
  by (rule conjI[OF bb_viterbi bb_joint])

section \<open>The cost function of the shortest path problem\<close>

lemmas dp_defs = compare_J_def bellman_sweep_def bellman_equation_def available_actions_def
  is_at_end_def eval_action_def edge_cost_def dict_get_def py_min_def py_max_def

lemma simple_find_cost: "find_cost_function simple_problem = Some (Inr Jstar)"
  unfolding find_cost_function_def simple_problem_def simple_cost_dict_def Jstar_def
  apply (subst cost_loop.simps, simp add: dp_defs)
  apply (subst cost_loop.simps, simp add: dp_defs)
  apply (subst cost_loop.simps, simp add: dp_defs)
  apply (subst cost_loop.simps, simp add: dp_defs)
  apply (subst cost_loop.simps, simp add: dp_defs)
  done

lemma simple_path: "find_shortest_path simple_problem Jstar = Some (Inr [''A'', ''C'', ''F'', ''G''])"
  unfolding find_shortest_path_def simple_problem_def simple_cost_dict_def Jstar_def
  apply (subst path_loop.simps, simp add: dp_defs)
  apply (subst path_loop.simps, simp add: dp_defs)
  apply (subst path_loop.simps, simp add: dp_defs)
  apply (subst path_loop.simps, simp add: dp_defs)
  done

lemma simple_eval: "evaluate_path simple_problem [''A'', ''C'', ''F'', ''G''] = Inr 8"
  "evaluate_path simple_problem [''A'', ''D'', ''F'', ''G''] = Inr 8"
  by (simp_all add: evaluate_path_def simple_problem_def simple_cost_dict_def edge_cost_def dict_get_def)

text \<open>
  C8. On the graph of the notebook \<open>find_cost_function\<close> returns a cost function with
  \<open>J(A) = 8\<close>, the path extracted from it is \<open>A, C, F, G\<close>, and that path costs 8, as
  does \<open>A, D, F, G\<close>.
\<close>

theorem shortest_path_on_notebook_graph:
  "find_cost_function simple_problem = Some (Inr Jstar)
   \<and> dict_get Jstar ''A'' = Inr 8
   \<and> find_shortest_path simple_problem Jstar = Some (Inr [''A'', ''C'', ''F'', ''G''])
   \<and> evaluate_path simple_problem [''A'', ''C'', ''F'', ''G''] = Inr 8
   \<and> evaluate_path simple_problem [''A'', ''D'', ''F'', ''G''] = Inr 8"
  by (simp add: simple_find_cost simple_path simple_eval) (simp add: Jstar_def dict_get_def)

lemma cost_loop_step:
  assumes "cost_state sp k = Inr (a, b)" "continues sp k"
  shows "cost_loop sp a b =
     (case cost_state sp (Suc k) of Inl e \<Rightarrow> Some (Inl e) | Inr (a', b') \<Rightarrow> cost_loop sp a' b')"
  using assms
  by (subst cost_loop.simps) (auto simp: continues_def split: sum.splits)

lemma cost_loop_stop:
  assumes "cost_state sp k = Inr (a, b)" "\<not> continues sp k"
  shows "cost_loop sp a b =
     (case compare_J sp a b of Inl e \<Rightarrow> Some (Inl e) | Inr d \<Rightarrow> Some (Inr b))"
  using assms
  by (subst cost_loop.simps) (auto simp: continues_def split: sum.splits)

lemma cost_loop_steps:
  assumes "cost_state sp k = Inr (a, b)" "\<forall>m. k \<le> m \<and> m < k + j \<longrightarrow> continues sp m"
  shows "cost_loop sp a b =
     (case cost_state sp (k + j) of Inl e \<Rightarrow> Some (Inl e) | Inr (a', b') \<Rightarrow> cost_loop sp a' b')"
  using assms
proof (induction j arbitrary: k a b)
  case 0 then show ?case by simp
next
  case (Suc j)
  have c: "continues sp k" using Suc.prems(2) by simp
  show ?case
  proof (cases "cost_state sp (Suc k)")
    case (Inl e)
    have "cost_state sp (Suc k + j) = Inl e" using Inl by (induction j) simp_all
    then show ?thesis using cost_loop_step[OF Suc.prems(1) c] Inl by simp
  next
    case (Inr s)
    obtain a' b' where s: "s = (a', b')" by (cases s)
    have "\<forall>m. Suc k \<le> m \<and> m < Suc k + j \<longrightarrow> continues sp m" using Suc.prems(2) by simp
    from Suc.IH[OF Inr[unfolded s] this] show ?thesis
      using cost_loop_step[OF Suc.prems(1) c] Inr s by simp
  qed
qed

lemma find_cost_function_stops:
  assumes "\<not> continues sp n" "\<forall>m<n. continues sp m"
  shows "find_cost_function sp =
     (case cost_state sp n of
        Inl e \<Rightarrow> Some (Inl e)
      | Inr (a, b) \<Rightarrow> (case compare_J sp a b of Inl e \<Rightarrow> Some (Inl e) | Inr d \<Rightarrow> Some (Inr b)))"
proof -
  have "find_cost_function sp =
     (case cost_state sp (0 + n) of Inl e \<Rightarrow> Some (Inl e) | Inr (a', b') \<Rightarrow> cost_loop sp a' b')"
    unfolding find_cost_function_def using assms(2) by (intro cost_loop_steps) auto
  then show ?thesis using cost_loop_stop[OF _ assms(1)] by (auto split: sum.splits)
qed

lemma cost_loop_diverges:
  assumes all: "\<forall>n. continues sp n" and ret: "cost_loop sp a b = Some y"
  shows "\<forall>n. cost_state sp n \<noteq> Inr (a, b)"
proof -
  have "sp = sp \<longrightarrow> (\<forall>n. cost_state sp n \<noteq> Inr (a, b))"
  proof (rule cost_loop.raw_induct[where P = "\<lambda>s a b y. s = sp \<longrightarrow> (\<forall>n. cost_state sp n \<noteq> Inr (a, b))",
        OF _ ret])
    fix f s a b y
    assume IH: "\<And>s' a' b' y'. f s' a' b' = Some y' \<Longrightarrow> s' = sp \<longrightarrow> (\<forall>n. cost_state sp n \<noteq> Inr (a', b'))"
      and body: "(case compare_J s a b of
                    Inl e \<Rightarrow> Some (Inl e)
                  | Inr d \<Rightarrow> if 1 / 10 ^ 10 < d
                             then case bellman_sweep s b of Inl e \<Rightarrow> Some (Inl e) | Inr J' \<Rightarrow> f s b J'
                             else Some (Inr b)) = Some y"
    show "s = sp \<longrightarrow> (\<forall>n. cost_state sp n \<noteq> Inr (a, b))"
    proof (intro impI allI notI)
      fix n assume s: "s = sp" and st: "cost_state sp n = Inr (a, b)"
      have c: "continues sp n" and c': "continues sp (Suc n)" using all by simp_all
      from c st obtain d where d: "compare_J sp a b = Inr d" "d > 1 / 10 ^ 10"
        by (cases "compare_J sp a b") (auto simp: continues_def)
      from c' st obtain J' where J': "bellman_sweep sp b = Inr J'" "cost_state sp (Suc n) = Inr (b, J')"
        by (cases "bellman_sweep sp b") (auto simp: continues_def)
      from body d J' s have "f sp b J' = Some y" by simp
      from IH[OF this] have "cost_state sp (Suc n) \<noteq> Inr (b, J')" by blast
      with J'(2) show False by blast
    qed
  qed
  then show ?thesis by simp
qed

lemma find_cost_function_diverges:
  assumes all: "\<forall>n. continues sp n"
  shows "find_cost_function sp = None"
proof (cases "find_cost_function sp")
  case None then show ?thesis .
next
  case (Some y)
  then have "cost_loop sp (map (\<lambda>v. (v, 100)) (map fst (dag sp)))
               (map (\<lambda>v. (v, 0)) (map fst (dag sp))) = Some y"
    by (simp add: find_cost_function_def)
  from cost_loop_diverges[OF all this] show ?thesis by (auto dest: spec[of _ 0])
qed

lemma negative_cycle_state:
  "cost_state negative_cycle (Suc n) =
     Inr ([(''A'', - real n), (''G'', 0)], [(''A'', - real n - 1), (''G'', 0)])"
  by (induction n) (simp_all add: negative_cycle_def dp_defs)

lemma negative_cycle_continues: "continues negative_cycle n"
proof (cases n)
  case 0 then show ?thesis by (simp add: continues_def negative_cycle_def dp_defs)
next
  case (Suc m)
  show ?thesis unfolding Suc continues_def negative_cycle_state
    by (simp add: negative_cycle_def dp_defs)
qed

text \<open>
  C5, the claim as stated fails: on the graph with the edge \<open>A \<rightarrow> A\<close> of cost \<open>-1\<close>
  the tolerance is never met and \<open>find_cost_function\<close> does not return: it neither
  stops after some number of iterations nor reports a failure.
\<close>

theorem find_cost_function_negative_cycle: "find_cost_function negative_cycle = None"
  by (rule find_cost_function_diverges) (simp add: negative_cycle_continues)

text \<open>
  C5, amended. \<open>find_cost_function\<close> takes no maximum number of iterations and has no
  result for a failure to converge: it fails to return exactly when the check
  \<open>max |J_n - J_np1| > 1e-10\<close> asks for one more iteration every time it is evaluated.
\<close>

theorem find_cost_function_runs_until_tolerance:
  "(find_cost_function sp = None) = (\<forall>n. continues sp n)"
proof
  assume none: "find_cost_function sp = None"
  show "\<forall>n. continues sp n"
  proof (rule ccontr)
    assume "\<not> (\<forall>n. continues sp n)"
    then obtain n where n: "\<not> continues sp n" by auto
    define n0 where "n0 = (LEAST n. \<not> continues sp n)"
    have 1: "\<not> continues sp n0" unfolding n0_def using n by (rule LeastI)
    have 2: "\<forall>m<n0. continues sp m" unfolding n0_def using not_less_Least by blast
    from find_cost_function_stops[OF 1 2] none show False by (auto split: sum.splits)
  qed
next
  assume "\<forall>n. continues sp n"
  then show "find_cost_function sp = None" by (rule find_cost_function_diverges)
qed

theorem find_cost_function_runs_until_tolerance_witness:
  "\<not> (\<forall>n. continues simple_problem n)"
  using find_cost_function_runs_until_tolerance[of simple_problem] simple_find_cost by simp

section \<open>The two solvers agree\<close>

lemma out_edges_in_dag:
  assumes "distinct (nodes sp)" "v \<in> set (nodes sp)"
  shows "(v, out_edges sp v) \<in> set (dag sp)"
proof -
  from assms(2) obtain es where "(v, es) \<in> set (dag sp)" by (auto simp: nodes_def)
  then have "map_of (dag sp) v = Some es" using assms(1) by (simp add: nodes_def)
  then show ?thesis using \<open>(v, es) \<in> set (dag sp)\<close> by (simp add: out_edges_def)
qed


lemma graph_okD:
  assumes "graph_ok rank B sp"
  shows "distinct (nodes sp)" "vertex sp \<in> set (nodes sp)" "terminal sp \<in> set (nodes sp)"
    "vertex sp \<noteq> terminal sp" "0 \<le> B"
  using assms by (simp_all add: graph_ok_def)

lemma graph_ok_node:
  assumes "graph_ok rank B sp" "v \<in> set (nodes sp)"
  shows "distinct (map fst (out_edges sp v))" "v = terminal sp \<or> out_edges sp v \<noteq> []"
    "B * real (rank v) < 10 ^ 10"
proof -
  have "(v, out_edges sp v) \<in> set (dag sp)" using out_edges_in_dag assms graph_okD(1) by blast
  moreover have "\<forall>ves\<in>set (dag sp). distinct (map fst (snd ves))
             \<and> (fst ves = terminal sp \<or> snd ves \<noteq> [])
             \<and> B * real (rank (fst ves)) < 10 ^ 10"
    using assms(1) by (simp add: graph_ok_def list_all_iff)
  ultimately show "distinct (map fst (out_edges sp v))" "v = terminal sp \<or> out_edges sp v \<noteq> []"
    "B * real (rank v) < 10 ^ 10" by fastforce+
qed

lemma graph_ok_edge:
  assumes "graph_ok rank B sp" "v \<in> set (nodes sp)" "(w, c) \<in> set (out_edges sp v)"
  shows "w \<in> set (nodes sp)" "rank w < rank v" "c \<le> B" "c \<in> \<int>" "- B \<le> c"
proof -
  have "(v, out_edges sp v) \<in> set (dag sp)" using out_edges_in_dag assms graph_okD(1) by blast
  moreover have "\<forall>ves\<in>set (dag sp). \<forall>wc\<in>set (snd ves). fst wc \<in> set (nodes sp) \<and> rank (fst wc) < rank (fst ves)
                              \<and> snd wc \<in> \<int> \<and> - B \<le> snd wc \<and> snd wc \<le> B"
    using assms(1) by (simp add: graph_ok_def list_all_iff)
  ultimately show "w \<in> set (nodes sp)" "rank w < rank v" "c \<le> B" "c \<in> \<int>" "- B \<le> c"
    using assms(3) by fastforce+
qed









lemma foldl_min_Min: "foldl min a xs = Min (insert a (set xs))" for a :: real
proof (induction xs arbitrary: a)
  case Nil then show ?case by simp
next
  case (Cons x xs)
  show ?case
  proof (cases "xs = []")
    case True then show ?thesis by (simp add: min.commute)
  next
    case False
    then have "Min (insert (min a x) (set xs)) = Min (insert a (insert x (set xs)))"
      by (simp add: min.assoc)
    then show ?thesis using Cons.IH[of "min a x"] by simp
  qed
qed


lemma py_min_Min: "xs \<noteq> [] \<Longrightarrow> py_min xs = Min (set xs)"
  by (cases xs) (simp_all add: py_min_def foldl_min_Min)


lemma py_min_in: "xs \<noteq> [] \<Longrightarrow> py_min xs \<in> set xs"
  using Min_in[of "set xs"] by (simp add: py_min_Min)







lemma iter_integer:
  assumes "graph_ok rank B sp"
  shows "v \<in> set (nodes sp) \<Longrightarrow> iter sp n v \<in> \<int>"
proof (induction n arbitrary: v)
  case 0 then show ?case by simp
next
  case (Suc n)
  show ?case
  proof (cases "v = terminal sp")
    case True then show ?thesis by (simp add: bell_def)
  next
    case False
    then have ne: "out_edges sp v \<noteq> []" using graph_ok_node(2)[OF assms Suc.prems] by simp
    then have "py_min (map (\<lambda>wc. snd wc + iter sp n (fst wc)) (out_edges sp v))
        \<in> set (map (\<lambda>wc. snd wc + iter sp n (fst wc)) (out_edges sp v))"
      by (intro py_min_in) simp
    then obtain wc where wc: "wc \<in> set (out_edges sp v)"
      and eq: "iter sp (Suc n) v = snd wc + iter sp n (fst wc)"
      using False by (auto simp: bell_def)
    have e: "(fst wc, snd wc) \<in> set (out_edges sp v)" using wc by simp
    have "snd wc \<in> \<int>" "iter sp n (fst wc) \<in> \<int>"
      using graph_ok_edge(4)[OF assms Suc.prems e] Suc.IH[OF graph_ok_edge(1)[OF assms Suc.prems e]]
      by simp_all
    then show ?thesis unfolding eq by (rule Ints_add)
  qed
qed







lemma edge_the:
  assumes "w \<in> set (map fst (out_edges sp v))"
  shows "(w, the (map_of (out_edges sp v) w)) \<in> set (out_edges sp v)"
proof -
  from assms obtain c where "map_of (out_edges sp v) w = Some c"
    by (metis map_of_eq_None_iff not_Some_eq set_map)
  then show ?thesis by (simp add: map_of_SomeD)
qed















lemma hd_snoc: "hd (pre @ [v]) \<in> S \<Longrightarrow> hd ((pre @ [v]) @ [w]) \<in> S"
  by (cases pre) simp_all



lemma append_Cons_comp: "map ((@) pre) (map ((#) v) xs) = map ((@) (pre @ [v])) xs"
  by simp










lemmas bf_defs = available_actions_def is_at_end_def edge_cost_def dict_get_def evaluate_path_def
  step_back_path_def





text \<open>
  Two more inputs on which the solvers part; the amended property says nothing about
  either kind. With costs above \<open>1e10\<close> no action is below the value with which
  \<open>find_shortest_path\<close> starts its search for the minimum, so it keeps
  \<open>actions[0]\<close> whatever \<open>J\<close> says of the other actions, against its comment
  "Find optimal action according to J"; and with the start at the terminal the brute
  force solver steps back from a path of one node.
\<close>

lemma far_cost: "find_cost_function far_problem = Some (Inr far_J)"
  unfolding find_cost_function_def far_problem_def far_J_def
  apply (subst cost_loop.simps, simp add: dp_defs)
  apply (subst cost_loop.simps, simp add: dp_defs)
  apply (subst cost_loop.simps, simp add: dp_defs)
  apply (subst cost_loop.simps, simp add: dp_defs)
  done

lemma far_path: "find_shortest_path far_problem far_J = Some (Inr [''A'', ''B'', ''G''])"
  unfolding find_shortest_path_def far_problem_def far_J_def
  apply (subst path_loop.simps, simp add: dp_defs)
  apply (subst path_loop.simps, simp add: dp_defs)
  apply (subst path_loop.simps, simp add: dp_defs)
  done

lemma far_traverse:
  "traverse_paths far_problem =
     Some (Inr [([''A'', ''C'', ''G''], 2 * 10 ^ 10 + 1), ([''A'', ''B'', ''G''], 3 * 10 ^ 10 + 1)])"
  unfolding traverse_paths_def far_problem_def
  apply (simp add: bf_defs)
  apply (subst traverse_loop.simps, simp add: bf_defs)
  apply (subst traverse_loop.simps, simp add: bf_defs)
  apply (subst traverse_loop.simps, simp add: bf_defs)
  apply (subst traverse_loop.simps, simp add: bf_defs)
  apply (subst traverse_loop.simps, simp add: bf_defs)
  apply (subst traverse_loop.simps, simp add: bf_defs)
  apply (subst traverse_loop.simps, simp add: bf_defs)
  apply (subst traverse_loop.simps, simp add: bf_defs)
  apply (subst traverse_loop.simps, simp add: bf_defs)
  done

lemma start_value_keeps_first_action:
  "find_cost_function far_problem = Some (Inr far_J)
   \<and> find_shortest_path far_problem far_J = Some (Inr [''A'', ''B'', ''G''])
   \<and> evaluate_path far_problem [''A'', ''B'', ''G''] = Inr (3 * 10 ^ 10 + 1)
   \<and> find_shortest_paths far_problem = Some (Inr [[''A'', ''C'', ''G'']])
   \<and> evaluate_path far_problem [''A'', ''C'', ''G''] = Inr (2 * 10 ^ 10 + 1)"
  by (simp add: far_cost far_path find_shortest_paths_def far_traverse py_min_def)
     (simp add: far_problem_def bf_defs)

lemma brute_force_raises_at_terminal:
  "find_shortest_paths start_at_terminal = Some (Inl IndexError)
   \<and> find_shortest_path start_at_terminal J = Some (Inr [''G''])"
proof -
  have "traverse_paths start_at_terminal = Some (Inl IndexError)"
    unfolding traverse_paths_def start_at_terminal_def simple_cost_dict_def
    apply (simp add: bf_defs)
    apply (subst traverse_loop.simps, simp add: bf_defs)
    done
  moreover have "find_shortest_path start_at_terminal J = Some (Inr [''G''])"
    unfolding find_shortest_path_def start_at_terminal_def
    by (subst path_loop.simps) (simp add: is_at_end_def)
  ultimately show ?thesis by (simp add: find_shortest_paths_def)
qed

text \<open>
  With costs that are floats but not integers the sums are rounded, and the two solvers
  add in different orders: \<open>evaluate_path\<close> adds the costs of a path from the start,
  the Bellman equation from the terminal. For the costs \<open>2 ^ -22\<close>, \<open>2 ^ -22\<close>,
  \<open>2 ^ 31\<close> along a path the first order gives \<open>2 ^ 31 + 2 ^ -21\<close> and the second
  \<open>2 ^ 31\<close>, the cost of a single edge of \<open>2 ^ 31\<close>. The amended property is
  therefore stated for integer costs.
\<close>

lemma float_sum_order:
  "fl_add (fl_add (Fin (1 / 2 ^ 22)) (Fin (1 / 2 ^ 22))) (Fin (2 ^ 31)) = Fin (2 ^ 31 + 1 / 2 ^ 21)
   \<and> fl_add (Fin (1 / 2 ^ 22)) (fl_add (Fin (1 / 2 ^ 22)) (Fin (2 ^ 31))) = Fin (2 ^ 31)"
proof -
  have a: "float64 (1 / 2 ^ 21) = Fin (1 / 2 ^ 21)" using float64_dyadic[of 1 21] by simp
  have "(2 ^ 31 + 1 / 2 ^ 21 :: real) = of_int (2 ^ 52 + 1) / 2 ^ 21" by simp
  then have b: "float64 (2 ^ 31 + 1 / 2 ^ 21) = Fin (2 ^ 31 + 1 / 2 ^ 21)"
    using float64_dyadic[of "2 ^ 52 + 1" 21] by simp
  have c: "float64 (1 / 2 ^ 22 + 2 ^ 31) = Fin (2 ^ 31)"
    using float64_tie by (simp add: add.commute)
  have l1: "fl_add (Fin (1 / 2 ^ 22)) (Fin (1 / 2 ^ 22)) = Fin (1 / 2 ^ 21)"
    using a by (simp add: fl_add_def rounded_def)
  have l2: "fl_add (Fin (1 / 2 ^ 21)) (Fin (2 ^ 31)) = Fin (2 ^ 31 + 1 / 2 ^ 21)"
    using b by (simp add: fl_add_def rounded_def add.commute)
  have r1: "fl_add (Fin (1 / 2 ^ 22)) (Fin (2 ^ 31)) = Fin (2 ^ 31)"
    using c by (simp add: fl_add_def rounded_def)
  show ?thesis by (simp only: l1 l2 r1 simp_thms)
qed

text \<open>
  On a graph that satisfies \<open>graph_ok\<close> the numbers of the two solvers are integers
  of absolute value below \<open>2 ^ 53\<close>, so every sum and difference Python forms is a
  float64 already and is not rounded: the sums \<open>dag[v][w] + J[w]\<close> of
  \<open>eval_action\<close> for the cost functions of the iteration, the differences that
  \<open>compare_J\<close> takes, and the cost of every list of nodes joined by edges, which
  covers every partial sum of \<open>evaluate_path\<close>.
\<close>

lemma iter_bounded:
  assumes "graph_ok rank B sp"
  shows "v \<in> set (nodes sp) \<Longrightarrow> \<bar>iter sp n v\<bar> \<le> B * real (rank v)"
proof (induction n arbitrary: v)
  case 0 then show ?case using graph_okD(5)[OF assms] by simp
next
  case (Suc n)
  show ?case
  proof (cases "v = terminal sp")
    case True then show ?thesis using graph_okD(5)[OF assms] by (simp add: bell_def)
  next
    case False
    then have ne: "out_edges sp v \<noteq> []" using graph_ok_node(2)[OF assms Suc.prems] by simp
    then have "py_min (map (\<lambda>wc. snd wc + iter sp n (fst wc)) (out_edges sp v))
        \<in> set (map (\<lambda>wc. snd wc + iter sp n (fst wc)) (out_edges sp v))"
      by (intro py_min_in) simp
    then obtain wc where wc: "wc \<in> set (out_edges sp v)"
      and eq: "iter sp (Suc n) v = snd wc + iter sp n (fst wc)"
      using False by (auto simp: bell_def)
    have e: "(fst wc, snd wc) \<in> set (out_edges sp v)" using wc by simp
    note ed = graph_ok_edge[OF assms Suc.prems e]
    have "\<bar>iter sp n (fst wc)\<bar> \<le> B * real (rank (fst wc))" using Suc.IH[OF ed(1)] .
    moreover have "\<bar>snd wc\<bar> \<le> B" using ed(3,5) by linarith
    moreover have "B * real (rank (fst wc)) + B \<le> B * real (rank v)"
    proof -
      have "real (rank (fst wc)) + 1 \<le> real (rank v)" using ed(2) by simp
      then have "B * (real (rank (fst wc)) + 1) \<le> B * real (rank v)"
        using graph_okD(5)[OF assms] by (rule mult_left_mono)
      then show ?thesis by (simp add: algebra_simps)
    qed
    ultimately show ?thesis unfolding eq by linarith
  qed
qed

lemma eval_action_not_rounded:
  assumes "graph_ok rank B sp" "v \<in> set (nodes sp)" "(w, c) \<in> set (out_edges sp v)"
  shows "float64 (c + iter sp n w) = Fin (c + iter sp n w)"
proof -
  note ed = graph_ok_edge[OF assms]
  have "\<bar>iter sp n w\<bar> \<le> B * real (rank w)" using iter_bounded[OF assms(1) ed(1)] .
  moreover have "\<bar>c\<bar> \<le> B" using ed(3,5) by linarith
  moreover have "B * real (rank w) + B \<le> B * real (rank v)"
  proof -
    have "real (rank w) + 1 \<le> real (rank v)" using ed(2) by simp
    then have "B * (real (rank w) + 1) \<le> B * real (rank v)"
      using graph_okD(5)[OF assms(1)] by (rule mult_left_mono)
    then show ?thesis by (simp add: algebra_simps)
  qed
  ultimately have "\<bar>c + iter sp n w\<bar> < 10 ^ 10" using graph_ok_node(3)[OF assms(1,2)] by linarith
  then have "\<bar>c + iter sp n w\<bar> < 2 ^ 53" by simp
  moreover have "c + iter sp n w \<in> \<int>" using ed(4) iter_integer[OF assms(1) ed(1)] by (rule Ints_add)
  ultimately show ?thesis by (intro float64_integer)
qed

lemma compare_J_not_rounded:
  assumes "graph_ok rank B sp" "v \<in> set (nodes sp)"
  shows "float64 (iter sp n v - iter sp (Suc n) v) = Fin (iter sp n v - iter sp (Suc n) v)"
proof -
  have "\<bar>iter sp n v\<bar> < 10 ^ 10" "\<bar>iter sp (Suc n) v\<bar> < 10 ^ 10"
    using iter_bounded[OF assms, of n] iter_bounded[OF assms, of "Suc n"] graph_ok_node(3)[OF assms]
    by linarith+
  then have "\<bar>iter sp n v - iter sp (Suc n) v\<bar> < 2 ^ 53" by simp
  moreover have "iter sp n v - iter sp (Suc n) v \<in> \<int>"
    using iter_integer[OF assms, of n] iter_integer[OF assms, of "Suc n"] by (rule Ints_diff)
  ultimately show ?thesis by (intro float64_integer)
qed

lemma path_cost_integer_bounded:
  "graph_ok rank B sp \<Longrightarrow> p \<noteq> [] \<Longrightarrow> hd p \<in> set (nodes sp) \<Longrightarrow> is_chain sp p
     \<Longrightarrow> path_cost sp p \<in> \<int> \<and> \<bar>path_cost sp p\<bar> \<le> B * real (rank (hd p))"
proof (induction sp p rule: is_chain.induct)
  case (1 sp v w rest)
  have v: "v \<in> set (nodes sp)" using "1.prems"(3) by simp
  have w: "w \<in> set (map fst (out_edges sp v))" and ch: "is_chain sp (w # rest)"
    using "1.prems"(4) by simp_all
  define c where "c = the (map_of (out_edges sp v) w)"
  have e: "(w, c) \<in> set (out_edges sp v)" unfolding c_def using edge_the[OF w] .
  note ed = graph_ok_edge[OF "1.prems"(1) v e]
  from "1.IH"[OF "1.prems"(1) _ _ ch] ed(1) have ih: "path_cost sp (w # rest) \<in> \<int>"
    "\<bar>path_cost sp (w # rest)\<bar> \<le> B * real (rank w)" by simp_all
  have eq: "path_cost sp (v # w # rest) = c + path_cost sp (w # rest)" by (simp add: c_def)
  have int: "c + path_cost sp (w # rest) \<in> \<int>" using ed(4) ih(1) by (rule Ints_add)
  have "\<bar>c\<bar> \<le> B" using ed(3,5) by linarith
  moreover have "B * real (rank w) + B \<le> B * real (rank v)"
  proof -
    have "real (rank w) + 1 \<le> real (rank v)" using ed(2) by simp
    then have "B * (real (rank w) + 1) \<le> B * real (rank v)"
      using graph_okD(5)[OF "1.prems"(1)] by (rule mult_left_mono)
    then show ?thesis by (simp add: algebra_simps)
  qed
  ultimately have "\<bar>c + path_cost sp (w # rest)\<bar> \<le> B * real (rank v)" using ih(2) by linarith
  then show ?case using int unfolding eq by simp
qed (auto dest: graph_okD(5))

lemma path_cost_not_rounded:
  assumes "graph_ok rank B sp" "p \<noteq> []" "hd p \<in> set (nodes sp)" "is_chain sp p"
  shows "float64 (path_cost sp p) = Fin (path_cost sp p)"
proof -
  have "\<bar>path_cost sp p\<bar> < 10 ^ 10"
    using path_cost_integer_bounded[OF assms] graph_ok_node(3)[OF assms(1,3)] by linarith
  then have "\<bar>path_cost sp p\<bar> < 2 ^ 53" by simp
  then show ?thesis using path_cost_integer_bounded[OF assms] by (intro float64_integer) simp_all
qed



end
